theory Spec2Isabelle
  imports Main "HOL-Library.AList"
begin

section \<open>Values, worksheets and the calls made on the spreadsheet service\<close>

text \<open>
  The module \<^verbatim>\<open>onadata/libs/utils/google_sheets.py\<close> drives a spreadsheet service
  through the gspread client. The embedding keeps the worksheet objects in a store
  (address to object, as the Python objects are shared between \<^verbatim>\<open>self.worksheets\<close>
  and the spreadsheet), and records every call made on the client, the spreadsheet or
  a worksheet in a log, in program order.

  Cell values are Python values; only the shapes the module handles are kept.
\<close>

datatype pyval = PNone | PStr string | PInt int

text \<open>
  A gspread worksheet: its title, the size of its grid and the content of its cells,
  addressed by (row, column), both counted from 1.
\<close>

record worksheet =
  wtitle :: string
  row_count :: nat
  col_count :: nat
  cells :: "nat \<times> nat \<Rightarrow> pyval option"

text \<open>
  The calls the module makes, with their arguments. A worksheet argument is the
  address of the worksheet object; a cell of \<^verbatim>\<open>update_cells\<close> is (row, column, value).
\<close>

datatype call =
    Login
  | New string
  | AddServiceAccountToSpreadsheet
  | ExportTo string
  | AddWorksheet string nat nat
  | Resize nat nat
  | Cell nat nat nat
  | UpdateCells nat "(nat \<times> nat \<times> pyval) list"
  | AppendRow nat "pyval list"
  | GetWorksheetsFeed
  | DelWorksheet nat

datatype error = AssertionError | KeyError | AttributeError | TypeError

text \<open>
  The mutable state of one \<^verbatim>\<open>SheetsExportBuilder\<close> together with the service:
  \<^verbatim>\<open>client\<close> (logged in or \<^verbatim>\<open>None\<close>), \<^verbatim>\<open>spreadsheet\<close> (the id of the spreadsheet
  or \<^verbatim>\<open>None\<close>), \<^verbatim>\<open>url\<close>, \<^verbatim>\<open>worksheets\<close> (section name to worksheet object),
  \<^verbatim>\<open>worksheet_titles\<close> (section name to generated title, an association list since
  the code reads its \<^verbatim>\<open>values()\<close>), the worksheets of the current spreadsheet in
  feed order, the store of worksheet objects, and the log of calls.
\<close>

record state =
  client :: bool
  spreadsheet :: "string option"
  url :: "string option"
  worksheets :: "string \<Rightarrow> nat option"
  worksheet_titles :: "(string \<times> string) list"
  members :: "nat list"
  store :: "nat \<Rightarrow> worksheet"
  next_id :: nat
  log :: "call list"

text \<open>
  A call that raises is the error together with the state at that moment: what was
  written before the exception stays written.
\<close>

type_synonym raised = "error \<times> state"

subsection \<open>gspread worksheet operations\<close>

text \<open>
  \<^verbatim>\<open>worksheet.resize(cols=n)\<close>, \<^verbatim>\<open>worksheet.cell(row, col)\<close> and
  \<^verbatim>\<open>worksheet.update_cells(cell_list)\<close> as gspread documents them: resize sets the
  column count, cell fetches one cell and changes nothing, update_cells stores every
  cell of the batch in one request.
\<close>

definition resize :: "nat \<Rightarrow> nat \<Rightarrow> state \<Rightarrow> state" where
  "resize ws n st =
     st\<lparr>store := (store st)(ws := (store st ws)\<lparr>col_count := n\<rparr>),
        log := log st @ [Resize ws n]\<rparr>"

definition cell :: "nat \<Rightarrow> nat \<Rightarrow> nat \<Rightarrow> state \<Rightarrow> state" where
  "cell ws r c st = st\<lparr>log := log st @ [Cell ws r c]\<rparr>"

fun put_cells :: "(nat \<times> nat \<times> pyval) list \<Rightarrow> (nat \<times> nat \<Rightarrow> pyval option)
    \<Rightarrow> (nat \<times> nat \<Rightarrow> pyval option)" where
  "put_cells [] g = g"
| "put_cells ((r, c, v) # cs) g = put_cells cs (g((r, c) \<mapsto> v))"

definition update_cells :: "nat \<Rightarrow> (nat \<times> nat \<times> pyval) list \<Rightarrow> state \<Rightarrow> state" where
  "update_cells ws cell_list st =
     st\<lparr>store := (store st)(ws := (store st ws)\<lparr>cells := put_cells cell_list (cells (store st ws))\<rparr>),
        log := log st @ [UpdateCells ws cell_list]\<rparr>"

subsection \<open>update_row\<close>

text \<open>
  The loop of \<^verbatim>\<open>update_row\<close>: for each (i, value) of
  \<^verbatim>\<open>enumerate(values, start=1)\<close>, fetch the cell at (index, i), set its value and
  append it to \<^verbatim>\<open>cell_list\<close>.
\<close>

fun update_row_loop :: "nat \<Rightarrow> nat \<Rightarrow> (nat \<times> pyval) list \<Rightarrow> (nat \<times> nat \<times> pyval) list \<Rightarrow> state
    \<Rightarrow> (nat \<times> nat \<times> pyval) list \<times> state" where
  "update_row_loop ws index [] cell_list st = (cell_list, st)"
| "update_row_loop ws index ((i, v) # ivs) cell_list st =
     update_row_loop ws index ivs (cell_list @ [(index, i, v)]) (cell ws index i st)"

definition update_row :: "nat \<Rightarrow> nat \<Rightarrow> pyval list \<Rightarrow> state \<Rightarrow> state" where
  "update_row ws index values st =
     (let data_width = length values;
          st1 = (if col_count (store st ws) < data_width then resize ws data_width st else st);
          (cell_list, st2) = update_row_loop ws index (enumerate 1 values) [] st1
      in update_cells ws cell_list st2)"

subsection \<open>More of the service: adding, appending, deleting\<close>

text \<open>
  \<^verbatim>\<open>spreadsheet.add_worksheet(title, rows, cols)\<close> creates an empty worksheet of the
  given size at the end of the spreadsheet and returns its object. The service is not
  asked whether the title is free: the call is recorded as the code makes it. On
  \<^verbatim>\<open>self.spreadsheet = None\<close> the attribute access raises.
\<close>

definition add_worksheet :: "string \<Rightarrow> nat \<Rightarrow> nat \<Rightarrow> state \<Rightarrow> raised + (nat \<times> state)" where
  "add_worksheet t rows cols st =
     (case spreadsheet st of
        None \<Rightarrow> Inl (AttributeError, st)
      | Some _ \<Rightarrow>
          Inr (next_id st,
               st\<lparr>members := members st @ [next_id st],
                  store := (store st)(next_id st :=
                     \<lparr>wtitle = t, row_count = rows, col_count = cols, cells = (\<lambda>_. None)\<rparr>),
                  next_id := Suc (next_id st),
                  log := log st @ [AddWorksheet t rows cols]\<rparr>))"

text \<open>
  \<^verbatim>\<open>worksheet.append_row(values)\<close> as gspread documents it: one row is added to the
  grid, the worksheet is widened if there are more values than columns, and the values
  are stored in the new last row from column 1.
\<close>

definition append_row :: "nat \<Rightarrow> pyval list \<Rightarrow> state \<Rightarrow> state" where
  "append_row ws values st =
     (let w = store st ws;
          new_row = Suc (row_count w);
          data_width = length values
      in st\<lparr>store := (store st)(ws :=
              w\<lparr>row_count := new_row,
                col_count := (if col_count w < data_width then data_width else col_count w),
                cells := put_cells (map (\<lambda>(i, v). (new_row, i, v)) (enumerate 1 values)) (cells w)\<rparr>),
            log := log st @ [AppendRow ws values]\<rparr>)"

definition del_worksheet :: "nat \<Rightarrow> state \<Rightarrow> state" where
  "del_worksheet ws st =
     st\<lparr>members := removeAll ws (members st), log := log st @ [DelWorksheet ws]\<rparr>"

subsection \<open>Loops that may raise\<close>

text \<open>A \<^verbatim>\<open>for\<close> loop whose body may raise: the first error ends the loop and is
  the result, with the state it carries.\<close>

fun for_each :: "('a \<Rightarrow> 's \<Rightarrow> 'e + 's) \<Rightarrow> 'a list \<Rightarrow> 's \<Rightarrow> 'e + 's" where
  "for_each body [] st = Inr st"
| "for_each body (x # xs) st =
     (case body x st of Inl e \<Rightarrow> Inl e | Inr st' \<Rightarrow> for_each body xs st')"

section \<open>The export builder\<close>

text \<open>
  A section of the form is a name and an ordered list of elements; the code reads the
  \<^verbatim>\<open>xpath\<close> and the \<^verbatim>\<open>title\<close> of an element.
\<close>

record element =
  xpath :: string
  title :: string

record survey_section =
  name :: string
  elements :: "element list"

text \<open>
  A row of data is a Python dict from field names to values. The joined export of one
  submission maps a section name to a dict (the main form) or to a list of dicts (a
  repeat group); any other value is skipped by \<^verbatim>\<open>_insert_data\<close>.
\<close>

type_synonym rowdict = "string \<Rightarrow> pyval option"

datatype section_data = Dict rowdict | ListOf "rowdict list" | Other pyval

type_synonym joined = "string \<Rightarrow> section_data option"

text \<open>A sheet of the XLSForm workbook as xlrd presents it.\<close>

record xls_sheet =
  sheet_name :: string
  nrows :: nat
  ncols :: nat
  cell_value :: "nat \<Rightarrow> nat \<Rightarrow> pyval"

text \<open>
  The builder: the configuration set by \<^verbatim>\<open>__init__\<close>, what it inherits from
  \<^verbatim>\<open>ExportBuilder\<close> and imports from \<^verbatim>\<open>common_tags\<close>, and the collaborators it calls.
  \<^verbatim>\<open>ExportBuilder\<close>, \<^verbatim>\<open>common_tags\<close>, the token library, Drive, the CSV builder,
  the storage and xlrd are not part of the module, so they are parameters here:
  \<^item> \<^verbatim>\<open>EXTRA_FIELDS\<close>, \<^verbatim>\<open>INDEX\<close>, \<^verbatim>\<open>PARENT_INDEX\<close>, \<^verbatim>\<open>PARENT_TABLE_NAME\<close>: constants;
  \<^item> \<^verbatim>\<open>get_valid_sheet_name\<close>, \<^verbatim>\<open>pre_process_row\<close>, \<^verbatim>\<open>dict_to_joined_export\<close>
    (which also updates \<^verbatim>\<open>indices\<close>), \<^verbatim>\<open>decode_mongo_encoded_section_names\<close>:
    methods of \<^verbatim>\<open>ExportBuilder\<close>;
  \<^item> \<^verbatim>\<open>refresh_token_of\<close>: the refresh token of the deserialised token blob;
  \<^item> \<^verbatim>\<open>drive_id\<close>, \<^verbatim>\<open>drive_default\<close>: the id Drive gives a new spreadsheet and the
    worksheets it puts into it;
  \<^item> \<^verbatim>\<open>csv_reader\<close>: the rows \<^verbatim>\<open>csv.reader\<close> yields from the file the CSV builder
    wrote at a path;
  \<^item> \<^verbatim>\<open>xform\<close>: \<^verbatim>\<open>self.xform\<close>, reduced to \<^verbatim>\<open>xform.xls.name\<close>;
    \<^verbatim>\<open>storage_exists\<close>; \<^verbatim>\<open>csv_workbook\<close> and \<^verbatim>\<open>xls_workbook\<close>: the sheets of the
    workbook xlrd opens from a stored file, converted from CSV or read as it is.
\<close>

record ('d, 'k, 'v) builder =
  spreadsheet_title :: string
  google_token :: string
  flatten_repeated_fields :: bool
  export_xlsform :: bool
  sections :: "survey_section list"
  survey_name :: string
  xform :: "string option"
  EXTRA_FIELDS :: "string list"
  INDEX :: string
  PARENT_INDEX :: string
  PARENT_TABLE_NAME :: string
  get_valid_sheet_name :: "string \<Rightarrow> string list \<Rightarrow> string"
  pre_process_row :: "rowdict \<Rightarrow> survey_section \<Rightarrow> rowdict"
  dict_to_joined_export :: "'d \<Rightarrow> nat \<Rightarrow> ('k \<Rightarrow> 'v option) \<Rightarrow> string \<Rightarrow> joined \<times> ('k \<Rightarrow> 'v option)"
  decode_mongo_encoded_section_names :: "joined \<Rightarrow> joined"
  refresh_token_of :: "string \<Rightarrow> string option"
  drive_id :: string
  drive_default :: "worksheet list"
  csv_reader :: "string \<Rightarrow> string list list"
  storage_exists :: "string \<Rightarrow> bool"
  csv_workbook :: "string \<Rightarrow> xls_sheet list"
  xls_workbook :: "string \<Rightarrow> xls_sheet list"

definition SHEETS_BASE_URL :: "string \<Rightarrow> string" where
  "SHEETS_BASE_URL key = ''https://docs.google.com/spreadsheet/ccc?key='' @ key @ ''&hl''"

definition FLATTENED_SHEET_TITLE :: string where
  "FLATTENED_SHEET_TITLE = ''raw''"

subsection \<open>SheetsClient\<close>

text \<open>
  \<^verbatim>\<open>login_with_auth_token\<close> asserts that the token has a refresh token (\<^verbatim>\<open>None\<close> and
  the empty string fail the assertion), then logs the client in.
\<close>

definition login_with_auth_token :: "('d, 'k, 'v) builder \<Rightarrow> string \<Rightarrow> state \<Rightarrow> raised + state" where
  "login_with_auth_token b token_string st =
     (case refresh_token_of b token_string of
        None \<Rightarrow> Inl (AssertionError, st)
      | Some r \<Rightarrow>
          if r = [] then Inl (AssertionError, st)
          else Inr (st\<lparr>client := True, log := log st @ [Login]\<rparr>))"

text \<open>
  \<^verbatim>\<open>client.new(title)\<close> posts the new file to Drive and opens it: the builder's
  spreadsheet is from now on the new one, which holds the worksheets Drive made.
\<close>

fun place :: "worksheet list \<Rightarrow> state \<Rightarrow> state" where
  "place [] st = st"
| "place (w # ws) st =
     place ws (st\<lparr>members := members st @ [next_id st],
                  store := (store st)(next_id st := w),
                  next_id := Suc (next_id st)\<rparr>)"

definition new :: "('d, 'k, 'v) builder \<Rightarrow> string \<Rightarrow> state \<Rightarrow> state" where
  "new b t st =
     place (drive_default b)
       (st\<lparr>spreadsheet := Some (drive_id b), members := [], log := log st @ [New t]\<rparr>)"

definition add_service_account_to_spreadsheet :: "state \<Rightarrow> state" where
  "add_service_account_to_spreadsheet st = st\<lparr>log := log st @ [AddServiceAccountToSpreadsheet]\<rparr>"

subsection \<open>write_row\<close>

text \<open>\<^verbatim>\<open>data.get(f)\<close> on a dict, and \<^verbatim>\<open>worksheet_titles.get(x)\<close> for a Python value
  \<^verbatim>\<open>x\<close>: the keys of \<^verbatim>\<open>worksheet_titles\<close> are section names, so only a string can be found.\<close>

definition dict_get :: "rowdict \<Rightarrow> string \<Rightarrow> pyval" where
  "dict_get data f = (case data f of None \<Rightarrow> PNone | Some v \<Rightarrow> v)"

definition titles_get :: "(string \<times> string) list \<Rightarrow> pyval \<Rightarrow> pyval" where
  "titles_get titles x =
     (case x of
        PStr s \<Rightarrow> (case map_of titles s of None \<Rightarrow> PNone | Some t \<Rightarrow> PStr t)
      | _ \<Rightarrow> PNone)"

text \<open>The dict after the first statement of \<^verbatim>\<open>write_row\<close>.\<close>

definition set_parent_table :: "string \<Rightarrow> (string \<times> string) list \<Rightarrow> rowdict \<Rightarrow> rowdict" where
  "set_parent_table ptn titles data =
     data(ptn \<mapsto> titles_get titles (dict_get data ptn))"

definition write_row :: "string \<Rightarrow> rowdict \<Rightarrow> nat \<Rightarrow> string list \<Rightarrow> (string \<times> string) list
    \<Rightarrow> state \<Rightarrow> state" where
  "write_row ptn data worksheet field_names titles st =
     (let data1 = set_parent_table ptn titles data
      in append_row worksheet (map (dict_get data1) field_names) st)"

subsection \<open>Creating one worksheet per section\<close>

text \<open>
  \<^verbatim>\<open>"_".join(section_name.split("/"))\<close>: Python's \<^verbatim>\<open>str.split\<close> with a one-character
  separator and \<^verbatim>\<open>str.join\<close>.
\<close>

fun split_on :: "char \<Rightarrow> string \<Rightarrow> string list" where
  "split_on sep [] = [[]]"
| "split_on sep (c # cs) =
     (if c = sep then [] # split_on sep cs
      else (case split_on sep cs of
              [] \<Rightarrow> [[c]]
            | w # ws \<Rightarrow> (c # w) # ws))"

fun join :: "string \<Rightarrow> string list \<Rightarrow> string" where
  "join sep [] = []"
| "join sep [w] = w"
| "join sep (w # ws) = w @ sep @ join sep ws"

text \<open>
  The body of the loop of \<^verbatim>\<open>_create_worksheets\<close>. The title is recorded in
  \<^verbatim>\<open>worksheet_titles\<close> before the worksheet is added.
\<close>

definition create_worksheet :: "('d, 'k, 'v) builder \<Rightarrow> survey_section \<Rightarrow> state \<Rightarrow> raised + state" where
  "create_worksheet b sec st =
     (let section_name = name sec;
          work_sheet_title = get_valid_sheet_name b
             (join ''_'' (split_on CHR ''/'' section_name))
             (map snd (worksheet_titles st));
          st1 = st\<lparr>worksheet_titles :=
                    AList.update section_name work_sheet_title (worksheet_titles st)\<rparr>;
          num_cols = length (elements sec) + length (EXTRA_FIELDS b)
      in case add_worksheet work_sheet_title 1 num_cols st1 of
           Inl e \<Rightarrow> Inl e
         | Inr (ws, st2) \<Rightarrow> Inr (st2\<lparr>worksheets := (worksheets st2)(section_name \<mapsto> ws)\<rparr>))"

definition create_worksheets :: "('d, 'k, 'v) builder \<Rightarrow> state \<Rightarrow> raised + state" where
  "create_worksheets b st = for_each (create_worksheet b) (sections b) st"

subsection \<open>Headers\<close>

definition insert_header :: "('d, 'k, 'v) builder \<Rightarrow> survey_section \<Rightarrow> state \<Rightarrow> raised + state" where
  "insert_header b sec st =
     (let section_name = name sec;
          headers = map title (elements sec) @ EXTRA_FIELDS b
      in case worksheets st section_name of
           None \<Rightarrow> Inl (KeyError, st)
         | Some ws \<Rightarrow> Inr (update_row ws 1 (map PStr headers) st))"

definition insert_headers :: "('d, 'k, 'v) builder \<Rightarrow> state \<Rightarrow> raised + state" where
  "insert_headers b st = for_each (insert_header b) (sections b) st"

subsection \<open>Data rows\<close>

text \<open>
  The inner loop of \<^verbatim>\<open>_insert_data\<close>, for one section of one submission: a dict is
  written as one row, a list as one row per child, anything else (also a missing
  section) writes nothing.
\<close>

fun write_rows :: "('d, 'k, 'v) builder \<Rightarrow> survey_section \<Rightarrow> nat \<Rightarrow> string list \<Rightarrow> rowdict list
    \<Rightarrow> state \<Rightarrow> state" where
  "write_rows b sec ws field_names [] st = st"
| "write_rows b sec ws field_names (child_row # rest) st =
     write_rows b sec ws field_names rest
       (write_row (PARENT_TABLE_NAME b) (pre_process_row b child_row sec) ws field_names
          (worksheet_titles st) st)"

definition insert_section_data :: "('d, 'k, 'v) builder \<Rightarrow> joined \<Rightarrow> survey_section \<Rightarrow> state
    \<Rightarrow> raised + state" where
  "insert_section_data b out sec st =
     (let section_name = name sec;
          field_names = map xpath (elements sec) @ EXTRA_FIELDS b
      in case worksheets st section_name of
           None \<Rightarrow> Inl (KeyError, st)
         | Some ws \<Rightarrow>
             (case out section_name of
                Some (Dict row) \<Rightarrow>
                  Inr (write_row (PARENT_TABLE_NAME b) (pre_process_row b row sec) ws field_names
                         (worksheet_titles st) st)
              | Some (ListOf rows) \<Rightarrow> Inr (write_rows b sec ws field_names rows st)
              | _ \<Rightarrow> Inr st))"

text \<open>
  The meta fields of the main form: \<^verbatim>\<open>output[survey_name]\<close> is created when missing,
  then \<^verbatim>\<open>INDEX\<close> and \<^verbatim>\<open>PARENT_INDEX\<close> are stored in it; an entry that is no dict does
  not take the item assignment.
\<close>

definition attach_meta :: "('d, 'k, 'v) builder \<Rightarrow> nat \<Rightarrow> joined \<Rightarrow> error + joined" where
  "attach_meta b index out =
     (let out1 = (if out (survey_name b) = None then out(survey_name b \<mapsto> Dict Map.empty) else out)
      in case out1 (survey_name b) of
           Some (Dict m) \<Rightarrow>
             Inr (out1(survey_name b \<mapsto>
                    Dict (m(INDEX b \<mapsto> PInt (int index), PARENT_INDEX b \<mapsto> PInt (- 1)))))
         | _ \<Rightarrow> Inl TypeError)"

text \<open>The body of the outer loop, for the submission \<^verbatim>\<open>d\<close> numbered \<^verbatim>\<open>index\<close>;
  the loop state is \<^verbatim>\<open>indices\<close> and the builder state.\<close>

definition insert_record :: "('d, 'k, 'v) builder \<Rightarrow> nat \<times> 'd \<Rightarrow> ('k \<Rightarrow> 'v option) \<times> state
    \<Rightarrow> raised + (('k \<Rightarrow> 'v option) \<times> state)" where
  "insert_record b p ist =
     (let (joined_export, indices) =
            dict_to_joined_export b (snd p) (fst p) (fst ist) (survey_name b);
          out = decode_mongo_encoded_section_names b joined_export
      in case attach_meta b (fst p) out of
           Inl e \<Rightarrow> Inl (e, snd ist)
         | Inr out1 \<Rightarrow>
             (case for_each (insert_section_data b out1) (sections b) (snd ist) of
                Inl e \<Rightarrow> Inl e
              | Inr st \<Rightarrow> Inr (indices, st)))"

definition insert_data :: "('d, 'k, 'v) builder \<Rightarrow> 'd list \<Rightarrow> state \<Rightarrow> raised + state" where
  "insert_data b data st =
     (case for_each (insert_record b) (enumerate 1 data) (Map.empty, st) of
        Inl e \<Rightarrow> Inl e
      | Inr (indices, st1) \<Rightarrow> Inr st1)"

definition export_tabular :: "('d, 'k, 'v) builder \<Rightarrow> 'd list \<Rightarrow> state \<Rightarrow> raised + state" where
  "export_tabular b data st =
     (case create_worksheets b st of
        Inl e \<Rightarrow> Inl e
      | Inr st1 \<Rightarrow>
          (case insert_headers b st1 of
             Inl e \<Rightarrow> Inl e
           | Inr st2 \<Rightarrow> insert_data b data st2))"

subsection \<open>The flattened export\<close>

text \<open>The list comprehension that filters the \<^verbatim>\<open>n/a\<close> entries of one CSV row.\<close>

definition filter_na :: "string list \<Rightarrow> string list" where
  "filter_na r = map (\<lambda>x. if x \<noteq> ''n/a'' then x else []) r"

fun update_rows :: "nat \<Rightarrow> (nat \<times> string list) list \<Rightarrow> state \<Rightarrow> state" where
  "update_rows ws [] st = st"
| "update_rows ws ((index, values) # rest) st =
     update_rows ws rest (update_row ws index (map PStr values) st)"

definition export_flattened :: "('d, 'k, 'v) builder \<Rightarrow> string \<Rightarrow> state \<Rightarrow> raised + state" where
  "export_flattened b path st =
     (let st1 = st\<lparr>log := log st @ [ExportTo path]\<rparr>;
          rows = map filter_na (csv_reader b path)
      in case rows of
           [] \<Rightarrow> Inr st1
         | first_row # _ \<Rightarrow>
             (case add_worksheet FLATTENED_SHEET_TITLE (length rows) (length first_row) st1 of
                Inl e \<Rightarrow> Inl e
              | Inr (ws, st2) \<Rightarrow> Inr (update_rows ws (enumerate 1 rows) st2)))"

subsection \<open>The XLSForm sheets\<close>

definition endswith :: "string \<Rightarrow> string \<Rightarrow> bool" where
  "endswith s suffix \<longleftrightarrow>
     length suffix \<le> length s \<and> drop (length s - length suffix) s = suffix"

fun copy_rows :: "xls_sheet \<Rightarrow> nat \<Rightarrow> nat list \<Rightarrow> state \<Rightarrow> state" where
  "copy_rows src ws [] st = st"
| "copy_rows src ws (r # rs) st =
     copy_rows src ws rs
       (update_row ws (r + 1) (map (\<lambda>c. cell_value src r c) [0..<ncols src]) st)"

definition copy_sheet :: "xls_sheet \<Rightarrow> state \<Rightarrow> raised + state" where
  "copy_sheet src st =
     (case add_worksheet (sheet_name src) (nrows src) (ncols src) st of
        Inl e \<Rightarrow> Inl e
      | Inr (ws, st1) \<Rightarrow> Inr (copy_rows src ws [0..<nrows src] st1))"

definition insert_xlsform :: "('d, 'k, 'v) builder \<Rightarrow> state \<Rightarrow> raised + state" where
  "insert_xlsform b st =
     (if \<not> client st then Inl (AssertionError, st)
      else if spreadsheet st = None then Inl (AssertionError, st)
      else case xform b of
             None \<Rightarrow> Inl (AssertionError, st)
           | Some file_path \<Rightarrow>
               if file_path = [] \<or> \<not> storage_exists b file_path then Inr st
               else for_each copy_sheet
                      (if endswith file_path ''.csv'' then csv_workbook b file_path
                       else xls_workbook b file_path) st)"

subsection \<open>export\<close>

text \<open>The last loop of \<^verbatim>\<open>export\<close>: the feed is fetched once, and every worksheet of
  it that is titled \<^verbatim>\<open>Sheet1\<close> is deleted.\<close>

fun delete_sheet1 :: "nat list \<Rightarrow> state \<Rightarrow> state" where
  "delete_sheet1 [] st = st"
| "delete_sheet1 (ws # feed) st =
     delete_sheet1 feed
       (if wtitle (store st ws) = ''Sheet1'' then del_worksheet ws st else st)"

definition delete_default :: "state \<Rightarrow> state" where
  "delete_default st =
     (let st1 = st\<lparr>log := log st @ [GetWorksheetsFeed]\<rparr>
      in delete_sheet1 (members st1) st1)"

definition export :: "('d, 'k, 'v) builder \<Rightarrow> string \<Rightarrow> 'd list \<Rightarrow> state \<Rightarrow> raised + state" where
  "export b path data st =
     (case login_with_auth_token b (google_token b) st of
        Inl e \<Rightarrow> Inl e
      | Inr st1 \<Rightarrow>
          (let st2 = new b (spreadsheet_title b) st1;
               st3 = st2\<lparr>url := Some (SHEETS_BASE_URL (drive_id b))\<rparr>;
               st4 = add_service_account_to_spreadsheet st3
           in case (if flatten_repeated_fields b then export_flattened b path st4
                    else export_tabular b data st4) of
                Inl e \<Rightarrow> Inl e
              | Inr st5 \<Rightarrow>
                  (case (if export_xlsform b then insert_xlsform b st5 else Inr st5) of
                     Inl e \<Rightarrow> Inl e
                   | Inr st6 \<Rightarrow> Inr (delete_default st6))))"

text \<open>A builder that has exported nothing yet: the class attributes as declared.\<close>

definition fresh :: state where
  "fresh = \<lparr>client = False, spreadsheet = None, url = None, worksheets = Map.empty,
            worksheet_titles = [], members = [], store = (\<lambda>_. \<lparr>wtitle = [], row_count = 0,
            col_count = 0, cells = (\<lambda>_. None)\<rparr>), next_id = 0, log = []\<rparr>"

section \<open>Functions used to state the properties\<close>

text \<open>The cells and the \<^verbatim>\<open>cell\<close> calls of one row written from column \<open>n\<close> on.\<close>

fun row_cells :: "nat \<Rightarrow> nat \<Rightarrow> pyval list \<Rightarrow> (nat \<times> nat \<times> pyval) list" where
  "row_cells idx n [] = []"
| "row_cells idx n (v # vs) = (idx, n, v) # row_cells idx (Suc n) vs"

fun cell_calls :: "nat \<Rightarrow> nat \<Rightarrow> nat \<Rightarrow> pyval list \<Rightarrow> call list" where
  "cell_calls ws idx n [] = []"
| "cell_calls ws idx n (v # vs) = Cell ws idx n # cell_calls ws idx (Suc n) vs"

text \<open>The dicts that \<^verbatim>\<open>_insert_data\<close> writes for one entry of the joined export.\<close>

definition rows_of :: "section_data option \<Rightarrow> rowdict list" where
  "rows_of x = (case x of Some (Dict r) \<Rightarrow> [r] | Some (ListOf rs) \<Rightarrow> rs | _ \<Rightarrow> [])"

text \<open>The log grows by calls that all satisfy a predicate.\<close>

definition grows :: "(call \<Rightarrow> bool) \<Rightarrow> state \<Rightarrow> state \<Rightarrow> bool" where
  "grows Q s s' \<longleftrightarrow> (\<exists>L. log s' = log s @ L \<and> list_all Q L)"

text \<open>A call that appends a row of the right length to the worksheet of a section.\<close>

definition section_row_call :: "('d, 'k, 'v) builder \<Rightarrow> (string \<Rightarrow> nat option) \<Rightarrow> call \<Rightarrow> bool" where
  "section_row_call b wsm c \<longleftrightarrow>
     (\<exists>sec \<in> set (sections b). \<exists>ws vs. c = AppendRow ws vs \<and> wsm (name sec) = Some ws
        \<and> length vs = length (elements sec) + length (EXTRA_FIELDS b))"

fun is_update_cells :: "call \<Rightarrow> bool" where
  "is_update_cells (UpdateCells ws cs) = True"
| "is_update_cells c = False"

text \<open>The titles of the worksheets that a list of calls creates, in order.\<close>

definition created_titles :: "call list \<Rightarrow> string list" where
  "created_titles L = concat (map (\<lambda>c. case c of AddWorksheet t r n \<Rightarrow> [t] | _ \<Rightarrow> []) L)"

text \<open>
  The titles of the section worksheets as the spec words them: every slash of the
  section name becomes an underscore, then the name is deduplicated against the titles
  generated so far (the values of \<^verbatim>\<open>worksheet_titles\<close>).
\<close>

definition slash_to_underscore :: "string \<Rightarrow> string" where
  "slash_to_underscore s = map (\<lambda>c. if c = CHR ''/'' then CHR ''_'' else c) s"

fun section_titles :: "('d, 'k, 'v) builder \<Rightarrow> survey_section list \<Rightarrow> (string \<times> string) list
    \<Rightarrow> string list" where
  "section_titles b [] titles = []"
| "section_titles b (sec # secs) titles =
     (let t = get_valid_sheet_name b (slash_to_underscore (name sec)) (map snd titles)
      in t # section_titles b secs (AList.update (name sec) t titles))"

text \<open>The \<^verbatim>\<open>add_worksheet\<close> calls of \<^verbatim>\<open>_create_worksheets\<close> for given titles.\<close>

fun add_calls :: "('d, 'k, 'v) builder \<Rightarrow> survey_section list \<Rightarrow> string list \<Rightarrow> call list" where
  "add_calls b (sec # secs) (t # ts) =
     AddWorksheet t 1 (length (elements sec) + length (EXTRA_FIELDS b)) # add_calls b secs ts"
| "add_calls b secs ts = []"

text \<open>Kinds of calls, by the step of the export that makes them.\<close>

fun is_add :: "call \<Rightarrow> bool" where
  "is_add (AddWorksheet t r n) = True"
| "is_add c = False"

fun row_call :: "nat \<Rightarrow> call \<Rightarrow> bool" where
  "row_call idx (Resize ws n) = True"
| "row_call idx (Cell ws r c) = (r = idx)"
| "row_call idx (UpdateCells ws cs) = list_all (\<lambda>(r, c, v). r = idx) cs"
| "row_call idx c = False"

definition header_call :: "call \<Rightarrow> bool" where
  "header_call c = row_call 1 c"

fun data_call :: "call \<Rightarrow> bool" where
  "data_call (AppendRow ws vs) = True"
| "data_call (Resize ws n) = True"
| "data_call (Cell ws r c) = (2 \<le> r)"
| "data_call (UpdateCells ws cs) = list_all (\<lambda>(r, c, v). 2 \<le> r) cs"
| "data_call c = False"

fun xls_call :: "call \<Rightarrow> bool" where
  "xls_call (AddWorksheet t r n) = True"
| "xls_call (Resize ws n) = True"
| "xls_call (Cell ws r c) = True"
| "xls_call (UpdateCells ws cs) = True"
| "xls_call c = False"

fun is_new :: "call \<Rightarrow> bool" where
  "is_new (New t) = True"
| "is_new c = False"

text \<open>The names under which \<^verbatim>\<open>_insert_xlsform\<close> adds worksheets.\<close>

definition xlsform_sheet_names :: "('d, 'k, 'v) builder \<Rightarrow> string list" where
  "xlsform_sheet_names b =
     (case xform b of
        None \<Rightarrow> []
      | Some file_path \<Rightarrow>
          if file_path = [] \<or> \<not> storage_exists b file_path then []
          else map sheet_name (if endswith file_path ''.csv'' then csv_workbook b file_path
                               else xls_workbook b file_path))"

text \<open>
  What writing headers and data rows leaves as it is: the worksheets of the builder
  and of the spreadsheet and their titles; no worksheet loses rows.
\<close>

definition same_sheets :: "state \<Rightarrow> state \<Rightarrow> bool" where
  "same_sheets s s' \<longleftrightarrow>
     worksheets s' = worksheets s \<and> worksheet_titles s' = worksheet_titles s
     \<and> members s' = members s \<and> next_id s' = next_id s \<and> spreadsheet s' = spreadsheet s
     \<and> (\<forall>h. wtitle (store s' h) = wtitle (store s h)
            \<and> row_count (store s h) \<le> row_count (store s' h))"

text \<open>Row 1 of every worksheet that has a row is left as it is.\<close>

definition keeps_row1 :: "state \<Rightarrow> state \<Rightarrow> bool" where
  "keeps_row1 s s' \<longleftrightarrow>
     (\<forall>h. 1 \<le> row_count (store s h) \<longrightarrow> (\<forall>c. cells (store s' h) (1, c) = cells (store s h) (1, c)))"

definition data_frame :: "state \<Rightarrow> state \<Rightarrow> bool" where
  "data_frame s s' \<longleftrightarrow> same_sheets s s' \<and> keeps_row1 s s'"

text \<open>The header row of a section, as \<^verbatim>\<open>_insert_headers\<close> builds it.\<close>

definition headers_of :: "('d, 'k, 'v) builder \<Rightarrow> survey_section \<Rightarrow> pyval list" where
  "headers_of b sec = map PStr (map title (elements sec) @ EXTRA_FIELDS b)"

section \<open>A deduplicating \<^verbatim>\<open>get_valid_sheet_name\<close> and a concrete builder\<close>

text \<open>
  Modelled from the spec: the deduplication inside \<^verbatim>\<open>get_valid_sheet_name\<close>, a method
  of \<^verbatim>\<open>ExportBuilder\<close> (\<^verbatim>\<open>onadata.libs.utils.export_builder\<close>), which is not part
  of the module. The spec says that titles are derived by "slash-to-underscore
  substitution plus deduplication": the desired name is kept when no existing title
  equals it, and otherwise extended until it is free. The first argument bounds the
  number of candidates tried.
\<close>

fun dedup :: "nat \<Rightarrow> string \<Rightarrow> string list \<Rightarrow> string" where
  "dedup 0 d ex = d"
| "dedup (Suc n) d ex = (if d \<in> set ex then dedup n (d @ ''1'') ex else d)"

text \<open>
  Modelled from the spec: \<^verbatim>\<open>ExportBuilder.get_valid_sheet_name\<close> (not part of the
  module), as the deduplication above with one candidate per existing name and one more.
\<close>

definition get_valid_sheet_name_spec :: "string \<Rightarrow> string list \<Rightarrow> string" where
  "get_valid_sheet_name_spec desired_name existing_names =
     dedup (length existing_names) desired_name existing_names"

text \<open>
  A form with a main section and one repeat group, its collaborators reduced to the
  simplest ones, one submission, and a builder state as \<^verbatim>\<open>_create_worksheets\<close>
  leaves it. They serve as concrete inputs.
\<close>

definition demo :: "(joined, unit, unit) builder" where
  "demo = \<lparr>spreadsheet_title = ''export'', google_token = ''token'',
     flatten_repeated_fields = False, export_xlsform = True,
     sections = [\<lparr>name = ''survey'', elements = [\<lparr>xpath = ''q1'', title = ''Q1''\<rparr>]\<rparr>,
                 \<lparr>name = ''survey/kids'', elements = [\<lparr>xpath = ''survey/kids/age'', title = ''age''\<rparr>]\<rparr>],
     survey_name = ''survey'', xform = Some ''form.xls'',
     EXTRA_FIELDS = [''_index'', ''_parent_table_name'', ''_parent_index''],
     INDEX = ''_index'', PARENT_INDEX = ''_parent_index'',
     PARENT_TABLE_NAME = ''_parent_table_name'',
     get_valid_sheet_name = get_valid_sheet_name_spec,
     pre_process_row = (\<lambda>row sec. row),
     dict_to_joined_export = (\<lambda>d index indices survey. (d, indices)),
     decode_mongo_encoded_section_names = (\<lambda>out. out),
     refresh_token_of = (\<lambda>blob. Some ''refresh''),
     drive_id = ''key1'',
     drive_default = [\<lparr>wtitle = ''Sheet1'', row_count = 1, col_count = 1, cells = (\<lambda>_. None)\<rparr>],
     csv_reader = (\<lambda>path. [[''name'', ''age''], [''n/a'', ''7'']]),
     storage_exists = (\<lambda>path. True),
     csv_workbook = (\<lambda>path. []),
     xls_workbook = (\<lambda>path. [\<lparr>sheet_name = ''survey'', nrows = 1, ncols = 1,
                                  cell_value = (\<lambda>r c. PStr ''type'')\<rparr>])\<rparr>"

definition demo_data :: "joined list" where
  "demo_data = [[''survey'' \<mapsto> Dict [''q1'' \<mapsto> PStr ''yes''],
                 ''survey/kids'' \<mapsto> ListOf [[''survey/kids/age'' \<mapsto> PInt 7,
                      ''_parent_table_name'' \<mapsto> PStr ''survey'']]]]"

definition demo_st :: state where
  "demo_st = fresh\<lparr>client := True, spreadsheet := Some ''key1'',
     worksheets := [''survey'' \<mapsto> 1, ''survey/kids'' \<mapsto> 2],
     worksheet_titles := [(''survey'', ''survey''), (''survey/kids'', ''survey_kids'')]\<rparr>"


section \<open>update_row\<close>

lemma update_row_loop_eq:
  "update_row_loop ws idx (enumerate n vs) acc st =
     (acc @ row_cells idx n vs, st\<lparr>log := log st @ cell_calls ws idx n vs\<rparr>)"
  by (induction vs arbitrary: n acc st) (simp_all add: cell_def)

lemma put_cells_row:
  "put_cells (row_cells idx n vs) g (r, c) =
     (if r = idx \<and> n \<le> c \<and> c < n + length vs then Some (vs ! (c - n)) else g (r, c))"
proof (induction vs arbitrary: n g)
  case Nil
  then show ?case by auto
next
  case (Cons v vs)
  show ?case
    by (auto simp: Cons.IH nth_Cons' Suc_diff_le)
qed

lemma row_cells_upt: "row_cells idx n vs = map (\<lambda>i. (idx, n + i, vs ! i)) [0..<length vs]"
  by (induction vs arbitrary: n) (auto simp: map_upt_Suc simp del: upt_Suc)

lemma cell_calls_upt: "cell_calls ws idx n vs = map (\<lambda>i. Cell ws idx (n + i)) [0..<length vs]"
  by (induction vs arbitrary: n) (auto simp: map_upt_Suc simp del: upt_Suc)

lemma update_row_eq:
  "update_row ws idx vs st =
     st\<lparr>store := (store st)(ws := (store st ws)
            \<lparr>col_count := (if col_count (store st ws) < length vs then length vs
                            else col_count (store st ws)),
              cells := put_cells (row_cells idx 1 vs) (cells (store st ws))\<rparr>),
        log := log st @ (if col_count (store st ws) < length vs then [Resize ws (length vs)] else [])
                 @ cell_calls ws idx 1 vs @ [UpdateCells ws (row_cells idx 1 vs)]\<rparr>"
  by (simp add: update_row_def update_row_loop_eq resize_def update_cells_def Let_def)

text \<open>
  C3. \<^verbatim>\<open>update_row(worksheet, index, values)\<close> stores \<^verbatim>\<open>values[i]\<close> in the cell at
  row \<^verbatim>\<open>index\<close> and column \<open>i + 1\<close> for every position \<open>i\<close> and leaves every other cell
  as it was; the column count becomes \<^verbatim>\<open>len(values)\<close> exactly when it was smaller, and
  row count, title and the other worksheets are unchanged. The calls it makes are: a
  resize to \<^verbatim>\<open>len(values)\<close> columns exactly when the worksheet was narrower, one cell
  fetch per value, and one single \<^verbatim>\<open>update_cells\<close> with the whole row.
\<close>

theorem update_row_writes:
  fixes st ws idx vs
  defines "w \<equiv> store st ws" and "w' \<equiv> store (update_row ws idx vs st) ws"
  shows "(\<forall>i<length vs. cells w' (idx, i + 1) = Some (vs ! i))
       \<and> (\<forall>r c. \<not> (r = idx \<and> 1 \<le> c \<and> c \<le> length vs) \<longrightarrow> cells w' (r, c) = cells w (r, c))
       \<and> col_count w' = (if col_count w < length vs then length vs else col_count w)
       \<and> row_count w' = row_count w \<and> wtitle w' = wtitle w
       \<and> (\<forall>h. h \<noteq> ws \<longrightarrow> store (update_row ws idx vs st) h = store st h)
       \<and> log (update_row ws idx vs st) =
           log st @ (if col_count w < length vs then [Resize ws (length vs)] else [])
             @ map (\<lambda>i. Cell ws idx (i + 1)) [0..<length vs]
             @ [UpdateCells ws (map (\<lambda>i. (idx, i + 1, vs ! i)) [0..<length vs])]"
proof -
  let ?st' = "update_row ws idx vs st"
  have cells': "cells w' (r, c) =
      (if r = idx \<and> 1 \<le> c \<and> c < 1 + length vs then Some (vs ! (c - 1)) else cells w (r, c))" for r c
    unfolding w_def w'_def by (simp add: update_row_eq put_cells_row)
  have written: "\<forall>i<length vs. cells w' (idx, i + 1) = Some (vs ! i)"
    by (simp add: cells')
  have kept: "\<forall>r c. \<not> (r = idx \<and> 1 \<le> c \<and> c \<le> length vs) \<longrightarrow> cells w' (r, c) = cells w (r, c)"
    by (auto simp: cells')
  have dims: "col_count w' = (if col_count w < length vs then length vs else col_count w)
      \<and> row_count w' = row_count w \<and> wtitle w' = wtitle w"
    unfolding w_def w'_def by (simp add: update_row_eq)
  have others: "\<forall>h. h \<noteq> ws \<longrightarrow> store ?st' h = store st h"
    by (simp add: update_row_eq)
  have calls: "log ?st' =
      log st @ (if col_count w < length vs then [Resize ws (length vs)] else [])
        @ map (\<lambda>i. Cell ws idx (i + 1)) [0..<length vs]
        @ [UpdateCells ws (map (\<lambda>i. (idx, i + 1, vs ! i)) [0..<length vs])]"
    unfolding w_def by (simp add: update_row_eq row_cells_upt cell_calls_upt)
  from written kept dims others calls show ?thesis by blast
qed

theorem update_row_writes_witness:
  "cells (store (update_row 0 2 [PStr ''a'', PInt 5] fresh) 0) (2, 2) = Some (PInt 5)
   \<and> cells (store (update_row 0 2 [PStr ''a'', PInt 5] fresh) 0) (1, 1) = cells (store fresh 0) (1, 1)
   \<and> col_count (store (update_row 0 2 [PStr ''a'', PInt 5] fresh) 0) = 2
   \<and> store (update_row 0 2 [PStr ''a'', PInt 5] fresh) 1 = store fresh 1
   \<and> log (update_row 0 2 [PStr ''a'', PInt 5] fresh) =
       [Resize 0 2, Cell 0 2 1, Cell 0 2 2, UpdateCells 0 [(2, 1, PStr ''a''), (2, 2, PInt 5)]]"
proof -
  let ?vs = "[PStr ''a'', PInt 5]"
  let ?st = "update_row 0 2 ?vs fresh"
  note t = update_row_writes [where vs = "?vs" and idx = 2 and ws = 0 and st = fresh]
  have up: "[0..<length ?vs] = [0, 1]"
    by simp
  have a: "cells (store ?st 0) (2, 2) = Some (PInt 5)"
    using t [THEN conjunct1, rule_format, of 1] by (simp add: numeral_2_eq_2)
  have b: "cells (store ?st 0) (1, 1) = cells (store fresh 0) (1, 1)"
    using t [THEN conjunct2, THEN conjunct1, rule_format, of 1 1] by simp
  have c: "col_count (store ?st 0) = 2"
    using t [THEN conjunct2, THEN conjunct2, THEN conjunct1] by (simp add: fresh_def)
  have d: "store ?st 1 = store fresh 1"
    using t [THEN conjunct2, THEN conjunct2, THEN conjunct2, THEN conjunct2, THEN conjunct2,
          THEN conjunct1, rule_format, of 1] by simp
  have e: "log ?st =
      [Resize 0 2, Cell 0 2 1, Cell 0 2 2, UpdateCells 0 [(2, 1, PStr ''a''), (2, 2, PInt 5)]]"
    using t [THEN conjunct2, THEN conjunct2, THEN conjunct2, THEN conjunct2, THEN conjunct2,
          THEN conjunct2] unfolding up by (simp add: fresh_def)
  from a b c d e show ?thesis by (intro conjI)
qed

section \<open>write_row and the data rows\<close>

lemma append_row_frame [simp]:
  "log (append_row ws vs st) = log st @ [AppendRow ws vs]"
  "worksheets (append_row ws vs st) = worksheets st"
  "worksheet_titles (append_row ws vs st) = worksheet_titles st"
  "spreadsheet (append_row ws vs st) = spreadsheet st"
  "client (append_row ws vs st) = client st"
  "members (append_row ws vs st) = members st"
  "next_id (append_row ws vs st) = next_id st"
  by (simp_all add: append_row_def Let_def)

lemma write_row_frame [simp]:
  "log (write_row ptn data ws fs titles st) =
     log st @ [AppendRow ws (map (dict_get (set_parent_table ptn titles data)) fs)]"
  "worksheets (write_row ptn data ws fs titles st) = worksheets st"
  "worksheet_titles (write_row ptn data ws fs titles st) = worksheet_titles st"
  "spreadsheet (write_row ptn data ws fs titles st) = spreadsheet st"
  "client (write_row ptn data ws fs titles st) = client st"
  "members (write_row ptn data ws fs titles st) = members st"
  "next_id (write_row ptn data ws fs titles st) = next_id st"
  by (simp_all add: write_row_def Let_def)

lemma enumerate_row_cells: "map (\<lambda>(i, v). (r, i, v)) (enumerate n vs) = row_cells r n vs"
  by (induction vs arbitrary: n) simp_all

lemma append_row_cells:
  "cells (store (append_row ws vs st) ws) (r, c) =
     (if r = Suc (row_count (store st ws)) \<and> 1 \<le> c \<and> c < 1 + length vs then Some (vs ! (c - 1))
      else cells (store st ws) (r, c))"
  unfolding append_row_def Let_def enumerate_row_cells
  by (simp add: put_cells_row)

lemma map_of_snd: "map_of al k = Some v \<Longrightarrow> \<exists>t\<in>set al. v = snd t"
  by (force dest: map_of_SomeD)

text \<open>
  C10. \<^verbatim>\<open>write_row\<close> appends one row. Wherever the field list names
  \<^verbatim>\<open>PARENT_TABLE_NAME\<close>, the value written is the title that \<^verbatim>\<open>worksheet_titles\<close>
  holds for the parent table name of the data, and \<^verbatim>\<open>None\<close> when the name is absent
  from the data or has no entry in the map: the written value is always a generated
  title or \<^verbatim>\<open>None\<close>, never a value taken from the data itself.
\<close>

theorem write_row_parent_table:
  fixes ptn data ws fs titles st
  defines "st' \<equiv> write_row ptn data ws fs titles st"
    and "parent \<equiv> (case data ptn of
                      Some (PStr s) \<Rightarrow> (case map_of titles s of Some t \<Rightarrow> PStr t | None \<Rightarrow> PNone)
                    | _ \<Rightarrow> PNone)"
  shows "\<exists>vs. log st' = log st @ [AppendRow ws vs] \<and> length vs = length fs
           \<and> (\<forall>i<length fs. cells (store st' ws) (Suc (row_count (store st ws)), i + 1) = Some (vs ! i))
           \<and> (\<forall>i<length fs. fs ! i = ptn \<longrightarrow> vs ! i = parent)
           \<and> (parent = PNone \<or> (\<exists>t \<in> snd ` set titles. parent = PStr t))
           \<and> ((data ptn = None \<or> (\<exists>s. data ptn = Some (PStr s) \<and> map_of titles s = None))
                \<longrightarrow> parent = PNone)"
proof -
  let ?vs = "map (dict_get (set_parent_table ptn titles data)) fs"
  have l: "log st' = log st @ [AppendRow ws ?vs]"
    by (simp add: st'_def)
  have c: "\<forall>i<length fs. cells (store st' ws) (Suc (row_count (store st ws)), i + 1) = Some (?vs ! i)"
    by (simp add: st'_def write_row_def append_row_cells)
  have p: "\<forall>i<length fs. fs ! i = ptn \<longrightarrow> ?vs ! i = parent"
    by (auto simp: parent_def set_parent_table_def dict_get_def titles_get_def
             split: option.splits pyval.splits)
  have t: "parent = PNone \<or> (\<exists>t \<in> snd ` set titles. parent = PStr t)"
    by (auto simp: parent_def split: option.splits pyval.splits dest: map_of_snd)
  have n: "(data ptn = None \<or> (\<exists>s. data ptn = Some (PStr s) \<and> map_of titles s = None))
        \<longrightarrow> parent = PNone"
    by (auto simp: parent_def)
  from l c p t n show ?thesis by (intro exI [of _ ?vs]) simp
qed

theorem write_row_parent_table_witness:
  "(\<exists>vs. log (write_row ''_parent_table_name''
              [''age'' \<mapsto> PInt 7, ''_parent_table_name'' \<mapsto> PStr ''survey/kids'']
              0 [''age'', ''_parent_table_name''] [(''survey/kids'', ''survey_kids'')] fresh)
          = [AppendRow 0 vs]
        \<and> vs ! 1 = PStr ''survey_kids'')
   \<and> (\<exists>vs. log (write_row ''_parent_table_name'' [''age'' \<mapsto> PInt 7]
              0 [''age'', ''_parent_table_name''] [(''survey/kids'', ''survey_kids'')] fresh)
          = [AppendRow 0 vs]
        \<and> vs ! 1 = PNone)"
proof -
  let ?fs = "[''age'', ''_parent_table_name'']"
  let ?d1 = "[''age'' \<mapsto> PInt 7, ''_parent_table_name'' \<mapsto> PStr ''survey/kids'']"
  let ?d2 = "[''age'' \<mapsto> PInt 7]"
  let ?t = "[(''survey/kids'', ''survey_kids'')]"
  from write_row_parent_table [where ptn = "''_parent_table_name''" and data = ?d1
      and ws = 0 and fs = ?fs and titles = ?t and st = fresh]
  obtain vs where l: "log (write_row ''_parent_table_name'' ?d1 0 ?fs ?t fresh)
          = log fresh @ [AppendRow 0 vs]"
    and p: "\<forall>i<length ?fs. ?fs ! i = ''_parent_table_name''
        \<longrightarrow> vs ! i = (case ?d1 ''_parent_table_name'' of
                      Some (PStr s) \<Rightarrow> (case map_of ?t s of Some t \<Rightarrow> PStr t | None \<Rightarrow> PNone)
                    | _ \<Rightarrow> PNone)"
    by blast
  from p [rule_format, of 1] have "vs ! 1 = PStr ''survey_kids''"
    by simp
  with l have a: "\<exists>vs. log (write_row ''_parent_table_name'' ?d1 0 ?fs ?t fresh) = [AppendRow 0 vs]
        \<and> vs ! 1 = PStr ''survey_kids''"
    by (simp add: fresh_def)
  from write_row_parent_table [where ptn = "''_parent_table_name''" and data = ?d2
      and ws = 0 and fs = ?fs and titles = ?t and st = fresh]
  obtain ws where l2: "log (write_row ''_parent_table_name'' ?d2 0 ?fs ?t fresh)
          = log fresh @ [AppendRow 0 ws]"
    and p2: "\<forall>i<length ?fs. ?fs ! i = ''_parent_table_name''
        \<longrightarrow> ws ! i = (case ?d2 ''_parent_table_name'' of
                      Some (PStr s) \<Rightarrow> (case map_of ?t s of Some t \<Rightarrow> PStr t | None \<Rightarrow> PNone)
                    | _ \<Rightarrow> PNone)"
    by blast
  from p2 [rule_format, of 1] have "ws ! 1 = PNone"
    by simp
  with l2 have b: "\<exists>vs. log (write_row ''_parent_table_name'' ?d2 0 ?fs ?t fresh) = [AppendRow 0 vs]
        \<and> vs ! 1 = PNone"
    by (simp add: fresh_def)
  from a b show ?thesis by (rule conjI)
qed

lemma for_each_rel:
  assumes step: "\<And>x s s'. x \<in> set xs \<Longrightarrow> I s \<Longrightarrow> body x s = Inr s' \<Longrightarrow> I s' \<and> R s s'"
    and refl: "\<And>s. R s s"
    and trans: "\<And>s1 s2 s3. R s1 s2 \<Longrightarrow> R s2 s3 \<Longrightarrow> R s1 s3"
    and init: "I st"
    and run: "for_each body xs st = Inr st'"
  shows "I st' \<and> R st st'"
  using step init run
proof (induction xs arbitrary: st)
  case Nil
  then show ?case by (simp add: refl)
next
  case (Cons x xs)
  from Cons.prems(3) obtain s1 where b: "body x st = Inr s1" and r: "for_each body xs s1 = Inr st'"
    by (auto split: sum.splits)
  from Cons.prems(1) [of x st s1] Cons.prems(2) b have s1: "I s1" "R st s1"
    by auto
  have "I st' \<and> R s1 st'"
    by (rule Cons.IH [OF _ s1(1) r]) (rule Cons.prems(1), auto)
  with s1 show ?case by (blast intro: trans)
qed

lemma grows_refl: "grows Q s s"
  by (simp add: grows_def)

lemma grows_trans: "grows Q s1 s2 \<Longrightarrow> grows Q s2 s3 \<Longrightarrow> grows Q s1 s3"
  by (auto simp: grows_def)

lemma grows_mono: "grows Q s s' \<Longrightarrow> (\<And>c. Q c \<Longrightarrow> Q' c) \<Longrightarrow> grows Q' s s'"
  by (auto simp: grows_def list_all_iff)

lemma write_rows_frame [simp]:
  "worksheets (write_rows b sec ws fs rows st) = worksheets st"
  "worksheet_titles (write_rows b sec ws fs rows st) = worksheet_titles st"
  "spreadsheet (write_rows b sec ws fs rows st) = spreadsheet st"
  "client (write_rows b sec ws fs rows st) = client st"
  "members (write_rows b sec ws fs rows st) = members st"
  "next_id (write_rows b sec ws fs rows st) = next_id st"
  by (induction rows arbitrary: st) simp_all

lemma write_rows_log:
  "log (write_rows b sec ws fs rows st) =
     log st @ map (\<lambda>row. AppendRow ws (map (dict_get (set_parent_table (PARENT_TABLE_NAME b)
                     (worksheet_titles st) (pre_process_row b row sec))) fs)) rows"
  by (induction rows arbitrary: st) simp_all

lemma insert_section_data_log:
  assumes "insert_section_data b out sec st = Inr st'"
  shows "\<exists>ws. worksheets st (name sec) = Some ws \<and>
     log st' = log st @ map (\<lambda>row. AppendRow ws (map (dict_get (set_parent_table (PARENT_TABLE_NAME b)
                     (worksheet_titles st) (pre_process_row b row sec)))
                     (map xpath (elements sec) @ EXTRA_FIELDS b))) (rows_of (out (name sec)))"
  using assms
  by (auto simp: insert_section_data_def Let_def rows_of_def write_rows_log
           split: option.splits section_data.splits)

lemma insert_section_data_frame:
  assumes "insert_section_data b out sec st = Inr st'"
  shows "worksheets st' = worksheets st \<and> worksheet_titles st' = worksheet_titles st
       \<and> spreadsheet st' = spreadsheet st \<and> client st' = client st
       \<and> members st' = members st \<and> next_id st' = next_id st"
  using assms
  by (auto simp: insert_section_data_def Let_def split: option.splits section_data.splits)

lemma insert_section_data_grows:
  assumes "insert_section_data b out sec st = Inr st'" and "sec \<in> set (sections b)"
  shows "grows (section_row_call b (worksheets st)) st st'"
proof -
  from insert_section_data_log [OF assms(1)] obtain ws where
    ws: "worksheets st (name sec) = Some ws" and
    l: "log st' = log st @ map (\<lambda>row. AppendRow ws (map (dict_get (set_parent_table (PARENT_TABLE_NAME b)
                     (worksheet_titles st) (pre_process_row b row sec)))
                     (map xpath (elements sec) @ EXTRA_FIELDS b))) (rows_of (out (name sec)))"
    by blast
  show ?thesis
    unfolding grows_def
    by (rule exI, rule conjI, rule l) (use ws assms(2) in \<open>auto simp: list_all_iff section_row_call_def\<close>)
qed

lemma insert_sections_grows:
  assumes run: "for_each (insert_section_data b out) (sections b) st = Inr st'"
  shows "worksheets st' = worksheets st \<and> grows (section_row_call b (worksheets st)) st st'"
proof -
  define I where "I = (\<lambda>s :: state. worksheets s = worksheets st)"
  define R where "R = grows (section_row_call b (worksheets st))"
  have step: "I s' \<and> R s s'"
    if "x \<in> set (sections b)" "I s" "insert_section_data b out x s = Inr s'" for x s s'
    using that insert_section_data_grows [of b out x s s'] insert_section_data_frame [of b out x s s']
    by (simp add: I_def R_def)
  have refl: "R s s" for s
    by (simp add: R_def grows_refl)
  have trans: "R s1 s2 \<Longrightarrow> R s2 s3 \<Longrightarrow> R s1 s3" for s1 s2 s3
    unfolding R_def by (rule grows_trans)
  have init: "I st"
    by (simp add: I_def)
  from for_each_rel [of "sections b" I "insert_section_data b out" R st st', OF step refl trans init run]
  show ?thesis by (simp add: I_def R_def)
qed

lemma insert_record_grows:
  assumes "insert_record b p (ix, st) = Inr (ix', st')"
  shows "worksheets st' = worksheets st \<and> grows (section_row_call b (worksheets st)) st st'"
  using assms insert_sections_grows
  by (auto simp: insert_record_def Let_def split: prod.splits sum.splits)

lemma insert_data_grows:
  assumes "insert_data b data st = Inr st'"
  shows "worksheets st' = worksheets st \<and> grows (section_row_call b (worksheets st)) st st'"
proof -
  from assms obtain ix where run: "for_each (insert_record b) (enumerate 1 data) (Map.empty, st) = Inr (ix, st')"
    by (auto simp: insert_data_def split: sum.splits prod.splits)
  define I where "I = (\<lambda>p :: ('b \<Rightarrow> 'c option) \<times> state. worksheets (snd p) = worksheets st)"
  define R where "R = (\<lambda>(p :: ('b \<Rightarrow> 'c option) \<times> state) (q :: ('b \<Rightarrow> 'c option) \<times> state).
      grows (section_row_call b (worksheets st)) (snd p) (snd q))"
  have step: "I s' \<and> R s s'"
    if "x \<in> set (enumerate 1 data)" "I s" "insert_record b x s = Inr s'" for x s s'
    using that insert_record_grows [of b x "fst s" "snd s" "fst s'" "snd s'"]
    by (simp add: I_def R_def)
  have refl: "R s s" for s
    by (simp add: R_def grows_refl)
  have trans: "R s1 s2 \<Longrightarrow> R s2 s3 \<Longrightarrow> R s1 s3" for s1 s2 s3
    unfolding R_def by (rule grows_trans)
  have init: "I (Map.empty, st)"
    by (simp add: I_def)
  from for_each_rel [of "enumerate 1 data" I "insert_record b" R "(Map.empty, st)" "(ix, st')",
      OF step refl trans init run]
  show ?thesis by (simp add: I_def R_def)
qed

lemmas eval_defs = export_def login_with_auth_token_def new_def
  add_service_account_to_spreadsheet_def export_tabular_def create_worksheets_def create_worksheet_def
  add_worksheet_def get_valid_sheet_name_spec_def insert_headers_def insert_header_def Let_def
  update_row_eq insert_data_def insert_record_def attach_meta_def insert_section_data_def
  write_row_def append_row_def insert_xlsform_def endswith_def copy_sheet_def delete_default_def
  del_worksheet_def SHEETS_BASE_URL_def set_parent_table_def dict_get_def titles_get_def
  export_flattened_def filter_na_def FLATTENED_SHEET_TITLE_def

text \<open>
  C4. For a section and an entry of the joined export, \<^verbatim>\<open>_insert_data\<close> appends one
  row per dict of the entry to the worksheet of the section. A row is the list of the
  values of the dict (pre-processed, its parent table name replaced by \<^verbatim>\<open>write_row\<close>)
  at the xpaths of the section's elements in element order, followed by its values at
  the extra fields: its length is the number of elements plus the number of extra
  fields, position by position it follows that field list, and apart from the parent
  table name the values are those of the pre-processed dict. Every call of a whole
  \<^verbatim>\<open>_insert_data\<close> appends such a row to the worksheet of some section.
\<close>

theorem tabular_rows_aligned:
  fixes b :: "('d, 'k, 'v) builder"
  defines "written \<equiv> \<lambda>titles sec row.
      set_parent_table (PARENT_TABLE_NAME b) titles (pre_process_row b row sec)"
  defines "vals \<equiv> \<lambda>titles sec row.
      map (dict_get (written titles sec row)) (map xpath (elements sec) @ EXTRA_FIELDS b)"
  assumes one: "insert_section_data b out sec st = Inr st'"
    and all: "insert_data b data s0 = Inr s1"
  shows "(\<exists>ws. worksheets st (name sec) = Some ws
            \<and> log st' = log st @ map (\<lambda>row. AppendRow ws (vals (worksheet_titles st) sec row))
                                     (rows_of (out (name sec))))
       \<and> (\<forall>titles row. length (vals titles sec row) = length (elements sec) + length (EXTRA_FIELDS b)
            \<and> (\<forall>i<length (elements sec).
                  vals titles sec row ! i = dict_get (written titles sec row) (xpath (elements sec ! i)))
            \<and> (\<forall>j<length (EXTRA_FIELDS b).
                  vals titles sec row ! (length (elements sec) + j)
                    = dict_get (written titles sec row) (EXTRA_FIELDS b ! j))
            \<and> (\<forall>f. f \<noteq> PARENT_TABLE_NAME b
                  \<longrightarrow> dict_get (written titles sec row) f = dict_get (pre_process_row b row sec) f))
       \<and> (\<exists>L. log s1 = log s0 @ L
            \<and> (\<forall>c \<in> set L. \<exists>s \<in> set (sections b). \<exists>ws vs. c = AppendRow ws vs
                  \<and> worksheets s0 (name s) = Some ws
                  \<and> length vs = length (elements s) + length (EXTRA_FIELDS b)))"
proof -
  have a: "\<exists>ws. worksheets st (name sec) = Some ws
            \<and> log st' = log st @ map (\<lambda>row. AppendRow ws (vals (worksheet_titles st) sec row))
                                     (rows_of (out (name sec)))"
    using insert_section_data_log [OF one] by (simp add: vals_def written_def)
  have b: "length (vals titles sec row) = length (elements sec) + length (EXTRA_FIELDS b)
            \<and> (\<forall>i<length (elements sec).
                  vals titles sec row ! i = dict_get (written titles sec row) (xpath (elements sec ! i)))
            \<and> (\<forall>j<length (EXTRA_FIELDS b).
                  vals titles sec row ! (length (elements sec) + j)
                    = dict_get (written titles sec row) (EXTRA_FIELDS b ! j))
            \<and> (\<forall>f. f \<noteq> PARENT_TABLE_NAME b
                  \<longrightarrow> dict_get (written titles sec row) f = dict_get (pre_process_row b row sec) f)"
    for titles row
    by (simp add: vals_def written_def nth_append set_parent_table_def dict_get_def)
  have c: "\<exists>L. log s1 = log s0 @ L
            \<and> (\<forall>c \<in> set L. \<exists>s \<in> set (sections b). \<exists>ws vs. c = AppendRow ws vs
                  \<and> worksheets s0 (name s) = Some ws
                  \<and> length vs = length (elements s) + length (EXTRA_FIELDS b))"
    using insert_data_grows [OF all]
    by (simp add: grows_def section_row_call_def list_all_iff)
  from a b c show ?thesis by blast
qed

theorem tabular_rows_aligned_witness:
  "\<exists>st' s1. insert_section_data demo (hd demo_data) (sections demo ! 1) demo_st = Inr st'
      \<and> insert_data demo demo_data demo_st = Inr s1
      \<and> log st' = [AppendRow 2 [PInt 7, PNone, PStr ''survey'', PNone]]
      \<and> log s1 = [AppendRow 1 [PStr ''yes'', PInt 1, PNone, PInt (- 1)],
                   AppendRow 2 [PInt 7, PNone, PStr ''survey'', PNone]]"
proof -
  define st' where "st' = projr (insert_section_data demo (hd demo_data) (sections demo ! 1) demo_st)"
  define s1 where "s1 = projr (insert_data demo demo_data demo_st)"
  have one: "insert_section_data demo (hd demo_data) (sections demo ! 1) demo_st = Inr st'"
    unfolding st'_def by (simp add: eval_defs demo_def demo_data_def demo_st_def fresh_def)
  have all: "insert_data demo demo_data demo_st = Inr s1"
    unfolding s1_def by (simp add: eval_defs demo_def demo_data_def demo_st_def fresh_def)
  note t = tabular_rows_aligned [OF one all]
  have l1: "log st' = [AppendRow 2 [PInt 7, PNone, PStr ''survey'', PNone]]"
    using t [THEN conjunct1]
    by (simp add: demo_def demo_data_def demo_st_def fresh_def rows_of_def eval_defs)
  have l2: "log s1 = [AppendRow 1 [PStr ''yes'', PInt 1, PNone, PInt (- 1)],
                   AppendRow 2 [PInt 7, PNone, PStr ''survey'', PNone]]"
    unfolding s1_def by (simp add: eval_defs demo_def demo_data_def demo_st_def fresh_def)
  from one all l1 l2 show ?thesis by blast
qed

section \<open>The flattened export\<close>

lemma update_row_frame [simp]:
  "worksheets (update_row ws idx vs st) = worksheets st"
  "worksheet_titles (update_row ws idx vs st) = worksheet_titles st"
  "spreadsheet (update_row ws idx vs st) = spreadsheet st"
  "client (update_row ws idx vs st) = client st"
  "members (update_row ws idx vs st) = members st"
  "next_id (update_row ws idx vs st) = next_id st"
  by (simp_all add: update_row_eq)

lemma update_row_cells:
  "cells (store (update_row ws idx vs st) ws) (r, c) =
     (if r = idx \<and> 1 \<le> c \<and> c < 1 + length vs then Some (vs ! (c - 1))
      else cells (store st ws) (r, c))"
  by (simp add: update_row_eq put_cells_row)

lemma update_row_other: "h \<noteq> ws \<Longrightarrow> store (update_row ws idx vs st) h = store st h"
  by (simp add: update_row_eq)

lemma update_row_dims [simp]:
  "row_count (store (update_row ws idx vs st) h) = row_count (store st h)"
  "wtitle (store (update_row ws idx vs st) h) = wtitle (store st h)"
  by (simp_all add: update_row_eq)

lemma filter_cell_calls [simp]: "filter is_update_cells (cell_calls ws idx n vs) = []"
  by (induction vs arbitrary: n) simp_all

lemma update_row_updates:
  "filter is_update_cells (log (update_row ws idx vs st)) =
     filter is_update_cells (log st) @ [UpdateCells ws (row_cells idx 1 vs)]"
  by (simp add: update_row_eq)

lemma update_rows_frame [simp]:
  "worksheets (update_rows ws irs st) = worksheets st"
  "worksheet_titles (update_rows ws irs st) = worksheet_titles st"
  "spreadsheet (update_rows ws irs st) = spreadsheet st"
  "client (update_rows ws irs st) = client st"
  "members (update_rows ws irs st) = members st"
  "next_id (update_rows ws irs st) = next_id st"
  by (induction ws irs st rule: update_rows.induct) simp_all

lemma update_rows_dims [simp]:
  "row_count (store (update_rows ws irs st) h) = row_count (store st h)"
  "wtitle (store (update_rows ws irs st) h) = wtitle (store st h)"
  by (induction ws irs st rule: update_rows.induct) simp_all

lemma update_rows_updates:
  "filter is_update_cells (log (update_rows ws (enumerate n rows) st)) =
     filter is_update_cells (log st)
       @ map (\<lambda>k. UpdateCells ws (row_cells (n + k) 1 (map PStr (rows ! k)))) [0..<length rows]"
proof (induction rows arbitrary: n st)
  case Nil
  then show ?case by simp
next
  case (Cons row rows)
  show ?case
    by (simp add: Cons.IH update_row_updates map_upt_Suc del: upt_Suc)
qed

lemma update_rows_cells:
  "cells (store (update_rows ws (enumerate n rows) st) ws) (r, c) =
     (if n \<le> r \<and> r < n + length rows \<and> 1 \<le> c \<and> c \<le> length (rows ! (r - n))
      then Some (PStr (rows ! (r - n) ! (c - 1)))
      else cells (store st ws) (r, c))"
proof (induction rows arbitrary: n st)
  case Nil
  then show ?case by auto
next
  case (Cons row rows)
  have step: "update_rows ws (enumerate n (row # rows)) st =
      update_rows ws (enumerate (Suc n) rows) (update_row ws n (map PStr row) st)"
    by simp
  show ?case
    unfolding step Cons.IH update_row_cells
    by (auto simp: nth_Cons' Suc_diff_le less_Suc_eq_le)
qed

lemma export_flattened_rows:
  assumes "spreadsheet st \<noteq> None" and "csv_reader b path \<noteq> []"
  shows "export_flattened b path st =
     Inr (update_rows (next_id st) (enumerate 1 (map filter_na (csv_reader b path)))
           (st\<lparr>members := members st @ [next_id st],
               store := (store st)(next_id st :=
                  \<lparr>wtitle = ''raw'', row_count = length (csv_reader b path),
                   col_count = length (hd (csv_reader b path)), cells = (\<lambda>_. None)\<rparr>),
               next_id := Suc (next_id st),
               log := log st @ [ExportTo path,
                  AddWorksheet ''raw'' (length (csv_reader b path)) (length (hd (csv_reader b path)))]\<rparr>))"
  using assms
  by (cases "csv_reader b path")
     (auto simp: export_flattened_def add_worksheet_def FLATTENED_SHEET_TITLE_def filter_na_def Let_def)

text \<open>
  C7. When the CSV read back has rows, the flattened export adds one worksheet titled
  \<^verbatim>\<open>raw\<close> with as many rows as the CSV, and its \<^verbatim>\<open>update_cells\<close> calls are, in order,
  one per CSV row: the call for the k-th row (from 1) writes the cells of worksheet row
  k, column by column.
\<close>

theorem flattened_rows_in_order:
  fixes b :: "('d, 'k, 'v) builder" and path :: string and st :: state
  defines "csv \<equiv> csv_reader b path" and "raw \<equiv> next_id st"
  assumes "spreadsheet st \<noteq> None" and "csv_reader b path \<noteq> []"
  shows "\<exists>st'. export_flattened b path st = Inr st'
      \<and> members st' = members st @ [raw] \<and> wtitle (store st' raw) = ''raw''
      \<and> row_count (store st' raw) = length csv
      \<and> filter is_update_cells (log st') =
          filter is_update_cells (log st)
            @ map (\<lambda>k. UpdateCells raw
                     (map (\<lambda>j. (k + 1, j + 1, PStr (filter_na (csv ! k) ! j))) [0..<length (csv ! k)]))
                [0..<length csv]"
  unfolding csv_def raw_def export_flattened_rows [OF assms(3,4)]
  by (simp add: update_rows_updates row_cells_upt filter_na_def)

theorem flattened_rows_in_order_witness:
  "\<exists>st'. export_flattened demo ''p'' demo_st = Inr st'
     \<and> filter is_update_cells (log st') =
         [UpdateCells 0 [(1, 1, PStr ''name''), (1, 2, PStr ''age'')],
          UpdateCells 0 [(2, 1, PStr []), (2, 2, PStr ''7'')]]"
proof -
  have h1: "spreadsheet demo_st \<noteq> None"
    by (simp add: demo_st_def)
  have h2: "csv_reader demo ''p'' \<noteq> []"
    by (simp add: demo_def)
  from flattened_rows_in_order [OF h1 h2]
  obtain st' where r: "export_flattened demo ''p'' demo_st = Inr st'"
    and u: "filter is_update_cells (log st') =
          filter is_update_cells (log demo_st)
            @ map (\<lambda>k. UpdateCells (next_id demo_st)
                     (map (\<lambda>j. (k + 1, j + 1, PStr (filter_na (csv_reader demo ''p'' ! k) ! j)))
                        [0..<length (csv_reader demo ''p'' ! k)]))
                [0..<length (csv_reader demo ''p'')]"
    by blast
  have "filter is_update_cells (log st') =
         [UpdateCells 0 [(1, 1, PStr ''name''), (1, 2, PStr ''age'')],
          UpdateCells 0 [(2, 1, PStr []), (2, 2, PStr ''7'')]]"
    unfolding u by (simp add: demo_def demo_st_def fresh_def filter_na_def numeral_2_eq_2)
  with r show ?thesis by blast
qed

text \<open>
  C8. In the worksheet the flattened export fills, the cell at row k and column j (both
  from 1) holds the j-th value of the k-th CSV row, except that a value that is exactly
  \<^verbatim>\<open>n/a\<close> is stored as the empty string; no other cell is written.
\<close>

theorem flattened_na_replaced:
  fixes b :: "('d, 'k, 'v) builder" and path :: string and st :: state
  defines "csv \<equiv> csv_reader b path" and "raw \<equiv> next_id st"
  assumes "spreadsheet st \<noteq> None" and "csv_reader b path \<noteq> []"
  shows "\<exists>st'. export_flattened b path st = Inr st'
      \<and> (\<forall>k<length csv. \<forall>j<length (csv ! k).
            cells (store st' raw) (k + 1, j + 1)
              = Some (PStr (if csv ! k ! j = ''n/a'' then [] else csv ! k ! j)))
      \<and> (\<forall>r c. \<not> (1 \<le> r \<and> r \<le> length csv \<and> 1 \<le> c \<and> c \<le> length (csv ! (r - 1)))
            \<longrightarrow> cells (store st' raw) (r, c) = None)"
  unfolding csv_def raw_def export_flattened_rows [OF assms(3,4)]
  by (auto simp: update_rows_cells filter_na_def)

theorem flattened_na_replaced_witness:
  "\<exists>st'. export_flattened demo ''p'' demo_st = Inr st'
     \<and> cells (store st' 0) (2, 1) = Some (PStr [])
     \<and> cells (store st' 0) (2, 2) = Some (PStr ''7'')"
proof -
  have h1: "spreadsheet demo_st \<noteq> None"
    by (simp add: demo_st_def)
  have h2: "csv_reader demo ''p'' \<noteq> []"
    by (simp add: demo_def)
  from flattened_na_replaced [OF h1 h2]
  obtain st' where r: "export_flattened demo ''p'' demo_st = Inr st'"
    and c: "\<forall>k<length (csv_reader demo ''p''). \<forall>j<length (csv_reader demo ''p'' ! k).
            cells (store st' (next_id demo_st)) (k + 1, j + 1)
              = Some (PStr (if csv_reader demo ''p'' ! k ! j = ''n/a'' then []
                            else csv_reader demo ''p'' ! k ! j))"
    by blast
  have n: "next_id demo_st = 0"
    by (simp add: demo_st_def fresh_def)
  from c [rule_format, of 1 0] have c1: "cells (store st' 0) (2, 1) = Some (PStr [])"
    by (simp add: demo_def n numeral_2_eq_2)
  from c [rule_format, of 1 1] have c2: "cells (store st' 0) (2, 2) = Some (PStr ''7'')"
    by (simp add: demo_def n numeral_2_eq_2)
  from r c1 c2 show ?thesis by blast
qed

section \<open>The empty CSV\<close>

lemma for_each_ok:
  assumes step: "\<And>x s. x \<in> set xs \<Longrightarrow> I s \<Longrightarrow> \<exists>s'. body x s = Inr s' \<and> I s'"
    and init: "I st"
  shows "\<exists>st'. for_each body xs st = Inr st' \<and> I st'"
  using step init
proof (induction xs arbitrary: st)
  case Nil
  then show ?case by simp
next
  case (Cons x xs)
  from Cons.prems(1) [of x st] Cons.prems(2) obtain s1 where b: "body x st = Inr s1" and i: "I s1"
    by auto
  have "\<exists>st'. for_each body xs s1 = Inr st' \<and> I st'"
    by (rule Cons.IH [OF _ i]) (rule Cons.prems(1), auto)
  with b show ?case by simp
qed

lemma copy_rows_frame [simp]:
  "worksheets (copy_rows src ws rs st) = worksheets st"
  "worksheet_titles (copy_rows src ws rs st) = worksheet_titles st"
  "spreadsheet (copy_rows src ws rs st) = spreadsheet st"
  "client (copy_rows src ws rs st) = client st"
  "members (copy_rows src ws rs st) = members st"
  "next_id (copy_rows src ws rs st) = next_id st"
  by (induction rs arbitrary: st) simp_all

lemma copy_sheet_ok:
  assumes "spreadsheet st \<noteq> None"
  shows "\<exists>st'. copy_sheet src st = Inr st' \<and> spreadsheet st' \<noteq> None"
  using assms by (auto simp: copy_sheet_def add_worksheet_def)

lemma insert_xlsform_ok:
  assumes "client st" and "spreadsheet st \<noteq> None" and "xform b \<noteq> None"
  shows "\<exists>st'. insert_xlsform b st = Inr st'"
proof -
  obtain file_path where f: "xform b = Some file_path"
    using assms(3) by auto
  have step: "\<exists>s'. copy_sheet x s = Inr s' \<and> spreadsheet s' \<noteq> None"
    if "spreadsheet s \<noteq> None" for x s
    using copy_sheet_ok [OF that] .
  have "\<exists>st'. for_each copy_sheet wb st = Inr st' \<and> spreadsheet st' \<noteq> None" for wb
    using for_each_ok [of wb "\<lambda>s. spreadsheet s \<noteq> None" copy_sheet st, OF step assms(2)] .
  then show ?thesis
    using assms(1,2) f by (auto simp: insert_xlsform_def)
qed

lemma place_frame [simp]:
  "log (place ws st) = log st"
  "spreadsheet (place ws st) = spreadsheet st"
  "client (place ws st) = client st"
  "worksheets (place ws st) = worksheets st"
  "worksheet_titles (place ws st) = worksheet_titles st"
  "next_id (place ws st) = next_id st + length ws"
  by (induction ws arbitrary: st) simp_all

lemma place_members [simp]:
  "members (place ws st) = members st @ [next_id st..<next_id st + length ws]"
proof (induction ws arbitrary: st)
  case Nil
  then show ?case by simp
next
  case (Cons w ws)
  have u: "[next_id st..<next_id st + length (w # ws)] =
      next_id st # [Suc (next_id st)..<Suc (next_id st) + length ws]"
    by (subst upt_conv_Cons) simp_all
  show ?case
    unfolding u by (simp add: Cons.IH)
qed

lemma new_frame [simp]:
  "log (new b t st) = log st @ [New t]"
  "spreadsheet (new b t st) = Some (drive_id b)"
  "client (new b t st) = client st"
  "worksheets (new b t st) = worksheets st"
  "worksheet_titles (new b t st) = worksheet_titles st"
  "members (new b t st) = [next_id st..<next_id st + length (drive_default b)]"
  "next_id (new b t st) = next_id st + length (drive_default b)"
  by (simp_all add: new_def)

lemma export_flattened_empty:
  "csv_reader b path = [] \<Longrightarrow> export_flattened b path s = Inr (s\<lparr>log := log s @ [ExportTo path]\<rparr>)"
  by (simp add: export_flattened_def)

lemma delete_sheet1_log:
  "\<exists>D. log (delete_sheet1 feed s) = log s @ D \<and> store (delete_sheet1 feed s) = store s
      \<and> (\<forall>c \<in> set D. \<exists>ws. c = DelWorksheet ws \<and> wtitle (store s ws) = ''Sheet1'')"
proof (induction feed arbitrary: s)
  case Nil
  then show ?case by simp
next
  case (Cons ws feed)
  show ?case
  proof (cases "wtitle (store s ws) = ''Sheet1''")
    case True
    from Cons.IH [of "del_worksheet ws s"] obtain D where
      "log (delete_sheet1 feed (del_worksheet ws s)) = log (del_worksheet ws s) @ D"
      "store (delete_sheet1 feed (del_worksheet ws s)) = store (del_worksheet ws s)"
      "\<forall>c \<in> set D. \<exists>w. c = DelWorksheet w \<and> wtitle (store (del_worksheet ws s) w) = ''Sheet1''"
      by blast
    with True show ?thesis
      by (intro exI [of _ "DelWorksheet ws # D"]) (simp add: del_worksheet_def)
  next
    case False
    with Cons.IH [of s] show ?thesis by simp
  qed
qed

lemma delete_default_log:
  "\<exists>D. log (delete_default s) = log s @ GetWorksheetsFeed # D \<and> store (delete_default s) = store s
      \<and> (\<forall>c \<in> set D. \<exists>ws. c = DelWorksheet ws \<and> wtitle (store s ws) = ''Sheet1'')"
  using delete_sheet1_log [of "members s" "s\<lparr>log := log s @ [GetWorksheetsFeed]\<rparr>"]
  by (auto simp: delete_default_def Let_def)

text \<open>
  C9. When the CSV read back has no rows, \<^verbatim>\<open>export_flattened\<close> returns after building
  the CSV: no worksheet is added and no row is written. The export goes on: with the
  client logged in, the spreadsheet created and the service account added, the XLSForm
  sheets are inserted when \<^verbatim>\<open>export_xlsform\<close> is set, then the worksheets feed is
  fetched and the default worksheet deleted, and \<^verbatim>\<open>export\<close> returns normally.
\<close>

theorem empty_csv_export:
  fixes b :: "('d, 'k, 'v) builder"
  assumes tok: "refresh_token_of b (google_token b) = Some r" "r \<noteq> []"
    and flat: "flatten_repeated_fields b"
    and empty: "csv_reader b path = []"
    and xf: "export_xlsform b \<longrightarrow> xform b \<noteq> None"
  shows "(\<forall>s. export_flattened b path s = Inr (s\<lparr>log := log s @ [ExportTo path]\<rparr>))
       \<and> (\<exists>s4 s6. log s4 = log st @ [Login, New (spreadsheet_title b),
                                       AddServiceAccountToSpreadsheet, ExportTo path]
            \<and> length (members s4) = length (drive_default b)
            \<and> (if export_xlsform b then insert_xlsform b s4 else Inr s4) = Inr s6
            \<and> export b path data st = Inr (delete_default s6)
            \<and> (\<exists>D. log (delete_default s6) = log s6 @ GetWorksheetsFeed # D))"
proof -
  define s3 where "s3 = add_service_account_to_spreadsheet
      ((new b (spreadsheet_title b) (st\<lparr>client := True, log := log st @ [Login]\<rparr>))
         \<lparr>url := Some (SHEETS_BASE_URL (drive_id b))\<rparr>)"
  define s4 where "s4 = s3\<lparr>log := log s3 @ [ExportTo path]\<rparr>"
  have flat_eq: "export_flattened b path s = Inr (s\<lparr>log := log s @ [ExportTo path]\<rparr>)" for s
    by (rule export_flattened_empty [OF empty])
  have l4: "log s4 = log st @ [Login, New (spreadsheet_title b),
                               AddServiceAccountToSpreadsheet, ExportTo path]"
    by (simp add: s4_def s3_def add_service_account_to_spreadsheet_def)
  have m4: "length (members s4) = length (drive_default b)"
    by (simp add: s4_def s3_def add_service_account_to_spreadsheet_def)
  have c4: "client s4" "spreadsheet s4 \<noteq> None"
    by (simp_all add: s4_def s3_def add_service_account_to_spreadsheet_def)
  obtain s6 where s6: "(if export_xlsform b then insert_xlsform b s4 else Inr s4) = Inr s6"
    using insert_xlsform_ok [OF c4, of b] xf by (cases "export_xlsform b") auto
  have ex: "export b path data st = Inr (delete_default s6)"
    using s6 tok flat flat_eq [of s3]
    by (simp add: export_def login_with_auth_token_def Let_def s4_def s3_def split: if_splits)
  from flat_eq l4 m4 s6 ex delete_default_log [of s6] show ?thesis
    by blast
qed

theorem empty_csv_export_witness:
  "export_flattened (demo\<lparr>flatten_repeated_fields := True, csv_reader := (\<lambda>path. [])\<rparr>) ''p'' fresh
      = Inr (fresh\<lparr>log := [ExportTo ''p'']\<rparr>)
   \<and> (\<exists>s6. export (demo\<lparr>flatten_repeated_fields := True, csv_reader := (\<lambda>path. [])\<rparr>) ''p'' [] fresh
          = Inr (delete_default s6))"
proof -
  let ?b = "demo\<lparr>flatten_repeated_fields := True, csv_reader := (\<lambda>path. [])\<rparr>"
  have tok: "refresh_token_of ?b (google_token ?b) = Some ''refresh''" "''refresh'' \<noteq> []"
    by (simp_all add: demo_def)
  have flat: "flatten_repeated_fields ?b"
    by simp
  have empty: "csv_reader ?b ''p'' = []"
    by simp
  have xf: "export_xlsform ?b \<longrightarrow> xform ?b \<noteq> None"
    by (simp add: demo_def)
  note t = empty_csv_export [OF tok flat empty xf, of fresh "[]"]
  from t have a: "export_flattened ?b ''p'' fresh = Inr (fresh\<lparr>log := log fresh @ [ExportTo ''p'']\<rparr>)"
    by blast
  from t have b: "\<exists>s6. export ?b ''p'' [] fresh = Inr (delete_default s6)"
    by blast
  from a b show ?thesis by (simp add: fresh_def)
qed

section \<open>Worksheet titles\<close>

lemma split_on_nonempty [simp]: "split_on sep s \<noteq> []"
  by (induction s) (auto split: list.splits)

lemma join_Cons_Cons: "join sep ((c # w) # ws) = c # join sep (w # ws)"
  by (cases ws) simp_all

lemma join_Nil_Cons: "ws \<noteq> [] \<Longrightarrow> join sep ([] # ws) = sep @ join sep ws"
  by (cases ws) simp_all

lemma join_split_on: "join ''_'' (split_on CHR ''/'' s) = slash_to_underscore s"
proof (induction s)
  case Nil
  then show ?case by (simp add: slash_to_underscore_def)
next
  case (Cons c s)
  show ?case
  proof (cases "c = CHR ''/''")
    case True
    then show ?thesis
      using Cons.IH by (simp add: join_Nil_Cons slash_to_underscore_def)
  next
    case False
    obtain w ws where sp: "split_on CHR ''/'' s = w # ws"
      by (cases "split_on CHR ''/'' s") simp_all
    with False Cons.IH show ?thesis
      by (simp add: join_Cons_Cons slash_to_underscore_def)
  qed
qed

lemma create_worksheet_eq:
  assumes "spreadsheet st \<noteq> None"
  shows "create_worksheet b sec st =
     Inr (st\<lparr>worksheets := (worksheets st)(name sec \<mapsto> next_id st),
             worksheet_titles := AList.update (name sec)
                (get_valid_sheet_name b (slash_to_underscore (name sec)) (map snd (worksheet_titles st)))
                (worksheet_titles st),
             members := members st @ [next_id st],
             store := (store st)(next_id st :=
                \<lparr>wtitle = get_valid_sheet_name b (slash_to_underscore (name sec))
                            (map snd (worksheet_titles st)),
                 row_count = 1,
                 col_count = length (elements sec) + length (EXTRA_FIELDS b),
                 cells = (\<lambda>_. None)\<rparr>),
             next_id := Suc (next_id st),
             log := log st @ [AddWorksheet
                (get_valid_sheet_name b (slash_to_underscore (name sec)) (map snd (worksheet_titles st)))
                1 (length (elements sec) + length (EXTRA_FIELDS b))]\<rparr>)"
  using assms by (auto simp: create_worksheet_def add_worksheet_def join_split_on Let_def)

lemma length_section_titles [simp]: "length (section_titles b secs titles) = length secs"
  by (induction secs arbitrary: titles) (simp_all add: Let_def)

lemma upt_shift: "[n..<n + Suc k] = n # [Suc n..<Suc n + k]"
  by (subst upt_conv_Cons) simp_all

lemma create_worksheets_run:
  assumes "spreadsheet st \<noteq> None"
  shows "\<exists>st'. for_each (create_worksheet b) secs st = Inr st'
      \<and> log st' = log st @ add_calls b secs (section_titles b secs (worksheet_titles st))
      \<and> members st' = members st @ [next_id st..<next_id st + length secs]
      \<and> next_id st' = next_id st + length secs
      \<and> spreadsheet st' = spreadsheet st \<and> client st' = client st
      \<and> (\<forall>h<next_id st. store st' h = store st h)
      \<and> (\<forall>i<length secs. store st' (next_id st + i) =
            \<lparr>wtitle = section_titles b secs (worksheet_titles st) ! i, row_count = 1,
             col_count = length (elements (secs ! i)) + length (EXTRA_FIELDS b),
             cells = (\<lambda>_. None)\<rparr>)
      \<and> (\<forall>n. n \<notin> name ` set secs \<longrightarrow> worksheets st' n = worksheets st n
             \<and> map_of (worksheet_titles st') n = map_of (worksheet_titles st) n)
      \<and> (distinct (map name secs) \<longrightarrow>
            (\<forall>i<length secs. worksheets st' (name (secs ! i)) = Some (next_id st + i)
               \<and> map_of (worksheet_titles st') (name (secs ! i))
                   = Some (section_titles b secs (worksheet_titles st) ! i)))"
  using assms
proof (induction secs arbitrary: st)
  case Nil
  then show ?case by simp
next
  case (Cons sec secs)
  let ?t = "get_valid_sheet_name b (slash_to_underscore (name sec)) (map snd (worksheet_titles st))"
  obtain s1 where s1: "create_worksheet b sec st = Inr s1"
    and s1_ws: "worksheets s1 = (worksheets st)(name sec \<mapsto> next_id st)"
    and s1_wt: "worksheet_titles s1 = AList.update (name sec) ?t (worksheet_titles st)"
    and s1_mem: "members s1 = members st @ [next_id st]"
    and s1_store: "store s1 = (store st)(next_id st :=
                \<lparr>wtitle = ?t, row_count = 1,
                 col_count = length (elements sec) + length (EXTRA_FIELDS b),
                 cells = (\<lambda>_. None)\<rparr>)"
    and s1_next: "next_id s1 = Suc (next_id st)"
    and s1_log: "log s1 = log st @ [AddWorksheet ?t 1 (length (elements sec) + length (EXTRA_FIELDS b))]"
    and s1_sp: "spreadsheet s1 = spreadsheet st" and s1_cl: "client s1 = client st"
    using create_worksheet_eq [OF Cons.prems, of b sec] by simp
  from Cons.prems s1_sp have "spreadsheet s1 \<noteq> None"
    by simp
  from Cons.IH [OF this] obtain st' where run: "for_each (create_worksheet b) secs s1 = Inr st'"
    and l: "log st' = log s1 @ add_calls b secs (section_titles b secs (worksheet_titles s1))"
    and m: "members st' = members s1 @ [next_id s1..<next_id s1 + length secs]"
    and n: "next_id st' = next_id s1 + length secs"
    and sp: "spreadsheet st' = spreadsheet s1" and cl: "client st' = client s1"
    and old: "\<forall>h<next_id s1. store st' h = store s1 h"
    and new: "\<forall>i<length secs. store st' (next_id s1 + i) =
            \<lparr>wtitle = section_titles b secs (worksheet_titles s1) ! i, row_count = 1,
             col_count = length (elements (secs ! i)) + length (EXTRA_FIELDS b),
             cells = (\<lambda>_. None)\<rparr>"
    and other: "\<forall>n. n \<notin> name ` set secs \<longrightarrow> worksheets st' n = worksheets s1 n
             \<and> map_of (worksheet_titles st') n = map_of (worksheet_titles s1) n"
    and dist: "distinct (map name secs) \<longrightarrow>
            (\<forall>i<length secs. worksheets st' (name (secs ! i)) = Some (next_id s1 + i)
               \<and> map_of (worksheet_titles st') (name (secs ! i))
                   = Some (section_titles b secs (worksheet_titles s1) ! i))"
    by blast
  have st: "section_titles b (sec # secs) (worksheet_titles st) =
      ?t # section_titles b secs (worksheet_titles s1)"
    by (simp add: s1_wt Let_def)
  have c1: "for_each (create_worksheet b) (sec # secs) st = Inr st'"
    by (simp add: s1 run)
  have c2: "log st' = log st @ add_calls b (sec # secs) (section_titles b (sec # secs) (worksheet_titles st))"
    unfolding st by (simp add: l s1_log)
  have c3: "members st' = members st @ [next_id st..<next_id st + length (sec # secs)]"
    using upt_shift [of "next_id st" "length secs"] by (simp add: m s1_mem s1_next)
  have c4: "next_id st' = next_id st + length (sec # secs)"
    by (simp add: n s1_next)
  have c5: "spreadsheet st' = spreadsheet st \<and> client st' = client st"
    by (simp add: sp cl s1_sp s1_cl)
  have c6: "\<forall>h<next_id st. store st' h = store st h"
    using old by (simp add: s1_next s1_store)
  have c7: "\<forall>i<length (sec # secs). store st' (next_id st + i) =
            \<lparr>wtitle = section_titles b (sec # secs) (worksheet_titles st) ! i, row_count = 1,
             col_count = length (elements ((sec # secs) ! i)) + length (EXTRA_FIELDS b),
             cells = (\<lambda>_. None)\<rparr>"
  proof (intro allI impI)
    fix i assume i: "i < length (sec # secs)"
    show "store st' (next_id st + i) =
            \<lparr>wtitle = section_titles b (sec # secs) (worksheet_titles st) ! i, row_count = 1,
             col_count = length (elements ((sec # secs) ! i)) + length (EXTRA_FIELDS b),
             cells = (\<lambda>_. None)\<rparr>"
    proof (cases i)
      case 0
      with old show ?thesis
        unfolding st by (simp add: s1_next s1_store)
    next
      case (Suc j)
      with i new [rule_format, of j] show ?thesis
        unfolding st by (simp add: s1_next)
    qed
  qed
  have c8: "\<forall>n. n \<notin> name ` set (sec # secs) \<longrightarrow> worksheets st' n = worksheets st n
             \<and> map_of (worksheet_titles st') n = map_of (worksheet_titles st) n"
    using other by (simp add: s1_ws s1_wt AList.update_conv')
  have c9: "distinct (map name (sec # secs)) \<longrightarrow>
            (\<forall>i<length (sec # secs). worksheets st' (name ((sec # secs) ! i)) = Some (next_id st + i)
               \<and> map_of (worksheet_titles st') (name ((sec # secs) ! i))
                   = Some (section_titles b (sec # secs) (worksheet_titles st) ! i))"
  proof (intro impI allI)
    fix i assume d: "distinct (map name (sec # secs))" and i: "i < length (sec # secs)"
    show "worksheets st' (name ((sec # secs) ! i)) = Some (next_id st + i)
               \<and> map_of (worksheet_titles st') (name ((sec # secs) ! i))
                   = Some (section_titles b (sec # secs) (worksheet_titles st) ! i)"
    proof (cases i)
      case 0
      from d have "name sec \<notin> name ` set secs"
        by simp
      with other have "worksheets st' (name sec) = worksheets s1 (name sec)"
        and "map_of (worksheet_titles st') (name sec) = map_of (worksheet_titles s1) (name sec)"
        by blast+
      with 0 show ?thesis
        unfolding st by (simp add: s1_ws s1_wt AList.update_conv')
    next
      case (Suc j)
      with i d dist [rule_format, of j] show ?thesis
        unfolding st by (simp add: s1_next)
    qed
  qed
  from c1 c2 c3 c4 c5 c6 c7 c8 c9 show ?case by blast
qed

lemma created_titles_append [simp]:
  "created_titles (xs @ ys) = created_titles xs @ created_titles ys"
  by (simp add: created_titles_def)

lemma created_titles_simps [simp]:
  "created_titles [] = []"
  "created_titles (AddWorksheet t r n # L) = t # created_titles L"
  "\<not> is_add c \<Longrightarrow> created_titles (c # L) = created_titles L"
  by (cases c; simp add: created_titles_def)+

lemma created_titles_none: "\<forall>c \<in> set L. \<not> is_add c \<Longrightarrow> created_titles L = []"
  by (induction L) simp_all

lemma created_titles_add_calls:
  "length ts = length secs \<Longrightarrow> created_titles (add_calls b secs ts) = ts"
proof (induction secs arbitrary: ts)
  case Nil
  then show ?case by simp
next
  case (Cons sec secs)
  then show ?case by (cases ts) simp_all
qed

lemma list_all_add_calls: "list_all is_add (add_calls b secs ts)"
  by (induction b secs ts rule: add_calls.induct) simp_all

lemma row_call_not_add: "row_call k c \<Longrightarrow> \<not> is_add c"
  by (cases c) simp_all

lemma data_call_not_add: "data_call c \<Longrightarrow> \<not> is_add c"
  by (cases c) simp_all

lemma row_call_data: "row_call k c \<Longrightarrow> 2 \<le> k \<Longrightarrow> data_call c"
  by (cases c) (auto simp: list_all_iff)

lemma section_row_call_data: "section_row_call b wsm c \<Longrightarrow> data_call c"
  by (auto simp: section_row_call_def)

lemma row_call_xls: "row_call k c \<Longrightarrow> xls_call c"
  by (cases c) simp_all

lemma list_all_cell_calls: "list_all (row_call idx) (cell_calls ws idx n vs)"
  by (induction vs arbitrary: n) simp_all

lemma list_all_row_cells: "list_all (\<lambda>(r, c, v). r = idx) (row_cells idx n vs)"
  by (induction vs arbitrary: n) simp_all

lemma update_row_grows: "grows (row_call idx) st (update_row ws idx vs st)"
  unfolding grows_def
  by (rule exI [of _ "(if col_count (store st ws) < length vs then [Resize ws (length vs)] else [])
        @ cell_calls ws idx 1 vs @ [UpdateCells ws (row_cells idx 1 vs)]"])
     (simp add: update_row_eq list_all_cell_calls list_all_row_cells)

lemma update_rows_grows:
  "grows (\<lambda>c. \<exists>k\<ge>n. row_call k c) st (update_rows ws (enumerate n rows) st)"
proof (induction rows arbitrary: n st)
  case Nil
  then show ?case by (simp add: grows_refl)
next
  case (Cons r rows)
  have a: "grows (\<lambda>c. \<exists>k\<ge>n. row_call k c) st (update_row ws n (map PStr r) st)"
    by (rule grows_mono [OF update_row_grows]) auto
  have b: "grows (\<lambda>c. \<exists>k\<ge>n. row_call k c) (update_row ws n (map PStr r) st)
      (update_rows ws (enumerate (Suc n) rows) (update_row ws n (map PStr r) st))"
    by (rule grows_mono [OF Cons.IH]) (auto intro: Suc_leD)
  from grows_trans [OF a b] show ?case by simp
qed

lemma copy_rows_rows: "grows (\<lambda>c. \<exists>k. row_call k c) st (copy_rows src ws rs st)"
proof (induction rs arbitrary: st)
  case Nil
  then show ?case by (simp add: grows_refl)
next
  case (Cons r rs)
  have a: "grows (\<lambda>c. \<exists>k. row_call k c) st
      (update_row ws (r + 1) (map (cell_value src r) [0..<ncols src]) st)"
    by (rule grows_mono [OF update_row_grows]) auto
  from grows_trans [OF a Cons.IH] show ?case by simp
qed

lemma copy_rows_grows: "grows xls_call st (copy_rows src ws rs st)"
  by (rule grows_mono [OF copy_rows_rows]) (auto intro: row_call_xls)

lemma copy_sheet_grows:
  assumes "copy_sheet src st = Inr st'"
  shows "grows xls_call st st'"
proof -
  from assms obtain s1 where
    a: "add_worksheet (sheet_name src) (nrows src) (ncols src) st = Inr (next_id st, s1)"
    and st': "st' = copy_rows src (next_id st) [0..<nrows src] s1"
    by (auto simp: copy_sheet_def add_worksheet_def split: option.splits)
  from a have "grows xls_call st s1"
    by (auto simp: add_worksheet_def grows_def split: option.splits)
  from grows_trans [OF this copy_rows_grows] st' show ?thesis by simp
qed

lemma insert_xlsform_grows:
  assumes "insert_xlsform b st = Inr st'"
  shows "grows xls_call st st'"
proof -
  have loop: "grows xls_call st st'" if run: "for_each copy_sheet wb st = Inr st'" for wb
  proof -
    have step: "True \<and> grows xls_call s s'" if "copy_sheet x s = Inr s'" for x s s'
      using copy_sheet_grows [OF that] by simp
    from for_each_rel [of wb "\<lambda>s. True" copy_sheet "grows xls_call" st st',
        OF step grows_refl grows_trans TrueI run]
    show ?thesis by simp
  qed
  from assms show ?thesis
    by (auto simp: insert_xlsform_def grows_refl loop split: if_splits option.splits)
qed

lemma header_call_eq: "header_call = row_call 1"
  by (rule ext) (simp add: header_call_def)

lemma insert_header_grows:
  assumes "insert_header b sec st = Inr st'"
  shows "grows header_call st st'"
  using assms update_row_grows [of 1 st]
  by (auto simp: insert_header_def Let_def header_call_eq split: option.splits)

lemma insert_headers_grows:
  assumes run: "insert_headers b st = Inr st'"
  shows "grows header_call st st'"
proof -
  have step: "True \<and> grows header_call s s'" if "insert_header b x s = Inr s'" for x s s'
    using insert_header_grows [OF that] by simp
  from for_each_rel [of "sections b" "\<lambda>s. True" "insert_header b" "grows header_call" st st',
      OF step grows_refl grows_trans TrueI run [unfolded insert_headers_def]]
  show ?thesis by simp
qed

lemma section_titles_fresh:
  assumes "\<forall>d ex. get_valid_sheet_name b d ex \<notin> set ex"
    and "map_of titles n = Some t" and "n \<notin> name ` set secs"
  shows "t \<notin> set (section_titles b secs titles)"
  using assms(2,3)
proof (induction secs arbitrary: titles)
  case Nil
  then show ?case by simp
next
  case (Cons sec secs)
  let ?t1 = "get_valid_sheet_name b (slash_to_underscore (name sec)) (map snd titles)"
  from Cons.prems(1) have "t \<in> set (map snd titles)"
    by (force dest: map_of_SomeD)
  with assms(1) have ne: "t \<noteq> ?t1"
    by metis
  from Cons.prems have "map_of (AList.update (name sec) ?t1 titles) n = Some t"
    by (simp add: AList.update_conv')
  from Cons.IH [OF this] Cons.prems(2) have "t \<notin> set (section_titles b secs (AList.update (name sec) ?t1 titles))"
    by simp
  with ne show ?case by (simp add: Let_def)
qed

lemma section_titles_distinct:
  assumes "\<forall>d ex. get_valid_sheet_name b d ex \<notin> set ex" and "distinct (map name secs)"
  shows "distinct (section_titles b secs titles)"
  using assms(2)
proof (induction secs arbitrary: titles)
  case Nil
  then show ?case by simp
next
  case (Cons sec secs)
  let ?t1 = "get_valid_sheet_name b (slash_to_underscore (name sec)) (map snd titles)"
  have m: "map_of (AList.update (name sec) ?t1 titles) (name sec) = Some ?t1"
    by (simp add: AList.update_conv')
  from Cons.prems have "name sec \<notin> name ` set secs"
    by simp
  from section_titles_fresh [OF assms(1) m this] Cons.IH Cons.prems
  show ?case by (simp add: Let_def)
qed

lemma export_tabular_log:
  assumes sp: "spreadsheet s \<noteq> None" and run: "export_tabular b data s = Inr s'"
  shows "\<exists>H D. log s' = log s @ add_calls b (sections b)
                    (section_titles b (sections b) (worksheet_titles s)) @ H @ D
           \<and> list_all header_call H \<and> list_all data_call D"
proof -
  from run obtain s1 s2 where c: "create_worksheets b s = Inr s1"
    and h: "insert_headers b s1 = Inr s2" and d: "insert_data b data s2 = Inr s'"
    by (auto simp: export_tabular_def split: sum.splits)
  from create_worksheets_run [OF sp, of b "sections b"] c
  have l1: "log s1 = log s @ add_calls b (sections b)
                    (section_titles b (sections b) (worksheet_titles s))"
    by (auto simp: create_worksheets_def)
  from insert_headers_grows [OF h] obtain H where l2: "log s2 = log s1 @ H" and H: "list_all header_call H"
    by (auto simp: grows_def)
  have "grows data_call s2 s'"
    by (rule grows_mono [OF conjunct2 [OF insert_data_grows [OF d]]]) (rule section_row_call_data)
  then obtain D where l3: "log s' = log s2 @ D" and D: "list_all data_call D"
    by (auto simp: grows_def)
  have "log s' = log s @ add_calls b (sections b)
                    (section_titles b (sections b) (worksheet_titles s)) @ H @ D"
    by (simp add: l1 l2 l3)
  with H D show ?thesis by blast
qed

lemma export_flattened_log:
  assumes sp: "spreadsheet s \<noteq> None" and run: "export_flattened b path s = Inr s'"
  shows "\<exists>C H D. log s' = log s @ [ExportTo path] @ C @ H @ D
           \<and> list_all is_add C
           \<and> created_titles C = (if csv_reader b path = [] then [] else [''raw''])
           \<and> list_all header_call H \<and> list_all data_call D"
proof (cases "csv_reader b path")
  case Nil
  with run have "log s' = log s @ [ExportTo path] @ [] @ [] @ []"
    by (auto simp: export_flattened_empty)
  with Nil show ?thesis
    by (intro exI [of _ "[]"]) simp
next
  case (Cons r rest)
  define n m where "n = length (csv_reader b path)" and "m = length (hd (csv_reader b path))"
  define s2 where "s2 = s\<lparr>members := members s @ [next_id s],
               store := (store s)(next_id s :=
                  \<lparr>wtitle = ''raw'', row_count = n, col_count = m, cells = (\<lambda>_. None)\<rparr>),
               next_id := Suc (next_id s),
               log := log s @ [ExportTo path, AddWorksheet ''raw'' n m]\<rparr>"
  define s3 where "s3 = update_row (next_id s) 1 (map PStr (filter_na r)) s2"
  have ne: "csv_reader b path \<noteq> []"
    using Cons by simp
  have s': "s' = update_rows (next_id s) (enumerate 2 (map filter_na rest)) s3"
    using run export_flattened_rows [OF sp ne] Cons
    by (simp add: s2_def s3_def n_def m_def numeral_2_eq_2)
  from update_row_grows [of 1 s2 "next_id s" "map PStr (filter_na r)"]
  obtain H where l2: "log s3 = log s2 @ H" and H: "list_all header_call H"
    by (auto simp: grows_def s3_def header_call_eq)
  have "grows data_call s3 s'"
    unfolding s' by (rule grows_mono [OF update_rows_grows]) (auto intro: row_call_data)
  then obtain D where l3: "log s' = log s3 @ D" and D: "list_all data_call D"
    by (auto simp: grows_def)
  have "log s' = log s @ [ExportTo path] @ [AddWorksheet ''raw'' n m] @ H @ D"
    by (simp add: l3 l2 s2_def)
  with H D ne show ?thesis
    by (intro exI [of _ "[AddWorksheet ''raw'' n m]"] exI [of _ H] exI [of _ D]) simp
qed

lemma copy_sheet_titles:
  assumes "copy_sheet src st = Inr st'"
  shows "\<exists>L. log st' = log st @ L \<and> created_titles L = [sheet_name src]"
proof -
  from assms obtain s1 where
    a: "add_worksheet (sheet_name src) (nrows src) (ncols src) st = Inr (next_id st, s1)"
    and st': "st' = copy_rows src (next_id st) [0..<nrows src] s1"
    by (auto simp: copy_sheet_def add_worksheet_def split: option.splits)
  from a have l1: "log s1 = log st @ [AddWorksheet (sheet_name src) (nrows src) (ncols src)]"
    by (auto simp: add_worksheet_def split: option.splits)
  have "grows (\<lambda>c. \<not> is_add c) s1 st'"
    unfolding st' by (rule grows_mono [OF copy_rows_rows]) (auto dest: row_call_not_add)
  then obtain R where l2: "log st' = log s1 @ R" and R: "\<forall>c \<in> set R. \<not> is_add c"
    by (auto simp: grows_def list_all_iff)
  have "log st' = log st @ AddWorksheet (sheet_name src) (nrows src) (ncols src) # R"
    by (simp add: l1 l2)
  moreover have "created_titles (AddWorksheet (sheet_name src) (nrows src) (ncols src) # R)
      = [sheet_name src]"
    by (simp add: created_titles_none [OF R])
  ultimately show ?thesis by blast
qed

lemma copy_sheets_titles:
  assumes "for_each copy_sheet wb st = Inr st'"
  shows "\<exists>L. log st' = log st @ L \<and> created_titles L = map sheet_name wb"
  using assms
proof (induction wb arbitrary: st)
  case Nil
  then show ?case by simp
next
  case (Cons src wb)
  from Cons.prems obtain s1 where a: "copy_sheet src st = Inr s1"
    and r: "for_each copy_sheet wb s1 = Inr st'"
    by (auto split: sum.splits)
  from copy_sheet_titles [OF a] obtain L1 where
    l1: "log s1 = log st @ L1" and t1: "created_titles L1 = [sheet_name src]"
    by blast
  from Cons.IH [OF r] obtain L2 where
    l2: "log st' = log s1 @ L2" and t2: "created_titles L2 = map sheet_name wb"
    by blast
  show ?case
    by (rule exI [of _ "L1 @ L2"]) (simp add: l1 l2 t1 t2)
qed

lemma insert_xlsform_titles:
  assumes "insert_xlsform b st = Inr st'"
  shows "\<exists>L. log st' = log st @ L \<and> created_titles L = xlsform_sheet_names b \<and> list_all xls_call L"
proof -
  from insert_xlsform_grows [OF assms] obtain L where
    l: "log st' = log st @ L" and x: "list_all xls_call L"
    by (auto simp: grows_def)
  have "\<exists>L'. log st' = log st @ L' \<and> created_titles L' = xlsform_sheet_names b"
    using assms copy_sheets_titles [of _ st st']
    by (auto simp: insert_xlsform_def xlsform_sheet_names_def split: if_splits option.splits)
  with l have "created_titles L = xlsform_sheet_names b"
    by auto
  with l x show ?thesis by blast
qed

text \<open>The states an export that returns goes through.\<close>

lemma export_unfold:
  assumes "export b path data st = Inr st'"
  shows "\<exists>s4 s5 s6. log s4 = log st @ [Login, New (spreadsheet_title b), AddServiceAccountToSpreadsheet]
      \<and> spreadsheet s4 \<noteq> None \<and> client s4
      \<and> worksheet_titles s4 = worksheet_titles st \<and> worksheets s4 = worksheets st
      \<and> (if flatten_repeated_fields b then export_flattened b path s4
          else export_tabular b data s4) = Inr s5
      \<and> (if export_xlsform b then insert_xlsform b s5 else Inr s5) = Inr s6
      \<and> st' = delete_default s6"
proof -
  define s4 where "s4 = add_service_account_to_spreadsheet
      ((new b (spreadsheet_title b) (st\<lparr>client := True, log := log st @ [Login]\<rparr>))
         \<lparr>url := Some (SHEETS_BASE_URL (drive_id b))\<rparr>)"
  have p: "log s4 = log st @ [Login, New (spreadsheet_title b), AddServiceAccountToSpreadsheet]"
    "spreadsheet s4 \<noteq> None" "client s4"
    "worksheet_titles s4 = worksheet_titles st" "worksheets s4 = worksheets st"
    by (simp_all add: s4_def add_service_account_to_spreadsheet_def)
  from assms obtain s5 s6 where
    "(if flatten_repeated_fields b then export_flattened b path s4
          else export_tabular b data s4) = Inr s5"
    "(if export_xlsform b then insert_xlsform b s5 else Inr s5) = Inr s6"
    "st' = delete_default s6"
    unfolding export_def login_with_auth_token_def Let_def s4_def
    by (auto split: option.splits if_splits sum.splits)
  with p show ?thesis by blast
qed

lemma dedup_fresh:
  "length (filter (\<lambda>e. length d \<le> length e) ex) \<le> n \<Longrightarrow> dedup n d ex \<notin> set ex"
proof (induction n arbitrary: d)
  case 0
  then have "\<forall>e \<in> set ex. \<not> length d \<le> length e"
    by (simp add: filter_empty_conv)
  then show ?case by auto
next
  case (Suc n)
  show ?case
  proof (cases "d \<in> set ex")
    case False
    then show ?thesis by simp
  next
    case True
    let ?P = "\<lambda>e. length d \<le> length e" and ?Q = "\<lambda>e. length (d @ ''1'') \<le> length e"
    have "filter ?Q ex = filter ?Q (filter ?P ex)"
      by (auto intro: filter_cong)
    moreover have "length (filter ?Q (filter ?P ex)) < length (filter ?P ex)"
      by (rule length_filter_less [of d]) (use True in simp_all)
    ultimately have "length (filter ?Q ex) \<le> n"
      using Suc.prems by simp
    from Suc.IH [OF this] True show ?thesis by simp
  qed
qed

lemma get_valid_sheet_name_spec_fresh: "get_valid_sheet_name_spec d ex \<notin> set ex"
  unfolding get_valid_sheet_name_spec_def by (rule dedup_fresh) simp

lemma delete_default_titles:
  "\<exists>D. log (delete_default s) = log s @ GetWorksheetsFeed # D \<and> created_titles D = []
      \<and> (\<forall>c \<in> set D. \<not> is_new c)
      \<and> (\<forall>c \<in> set D. \<exists>ws. c = DelWorksheet ws \<and> wtitle (store (delete_default s) ws) = ''Sheet1'')"
proof -
  from delete_default_log [of s] obtain D where
    l: "log (delete_default s) = log s @ GetWorksheetsFeed # D"
    and st: "store (delete_default s) = store s"
    and d: "\<forall>c \<in> set D. \<exists>ws. c = DelWorksheet ws \<and> wtitle (store s ws) = ''Sheet1''"
    by blast
  from d have "\<forall>c \<in> set D. \<not> is_add c" and "\<forall>c \<in> set D. \<not> is_new c"
    by auto
  with l d st show ?thesis
    by (intro exI [of _ D]) (simp add: created_titles_none)
qed

text \<open>
  C1, as the code has it. When \<^verbatim>\<open>get_valid_sheet_name\<close> returns a name that is not
  among the existing ones and the sections have distinct names, the titles of the
  section worksheets are pairwise distinct; each is \<^verbatim>\<open>get_valid_sheet_name\<close> applied
  to the section name with every slash replaced by an underscore and to the titles then
  held in \<^verbatim>\<open>worksheet_titles\<close>. The worksheets an export creates are these (or the one
  \<^verbatim>\<open>raw\<close> sheet of the flattened export), followed by the sheets of the XLSForm when
  \<^verbatim>\<open>export_xlsform\<close> is set, which are added under their own names with no
  deduplication: all titles are pairwise distinct when \<^verbatim>\<open>export_xlsform\<close> is unset.
\<close>

theorem section_titles_unique:
  fixes b :: "('d, 'k, 'v) builder"
  assumes dedup: "\<forall>d ex. get_valid_sheet_name b d ex \<notin> set ex"
    and names: "distinct (map name (sections b))"
    and run: "export b path data st = Inr st'"
  shows "\<exists>L. log st' = log st @ L
      \<and> created_titles L =
          (if flatten_repeated_fields b then (if csv_reader b path = [] then [] else [''raw''])
           else section_titles b (sections b) (worksheet_titles st))
          @ (if export_xlsform b then xlsform_sheet_names b else [])
      \<and> distinct (section_titles b (sections b) (worksheet_titles st))
      \<and> (\<not> export_xlsform b \<longrightarrow> distinct (created_titles L))"
proof -
  let ?T = "if flatten_repeated_fields b then (if csv_reader b path = [] then [] else [''raw''])
           else section_titles b (sections b) (worksheet_titles st)"
  let ?X = "if export_xlsform b then xlsform_sheet_names b else []"
  from export_unfold [OF run] obtain s4 s5 s6 where
    l4: "log s4 = log st @ [Login, New (spreadsheet_title b), AddServiceAccountToSpreadsheet]"
    and sp: "spreadsheet s4 \<noteq> None" and wt: "worksheet_titles s4 = worksheet_titles st"
    and body: "(if flatten_repeated_fields b then export_flattened b path s4
          else export_tabular b data s4) = Inr s5"
    and xls: "(if export_xlsform b then insert_xlsform b s5 else Inr s5) = Inr s6"
    and st': "st' = delete_default s6"
    by blast
  have d: "distinct (section_titles b (sections b) (worksheet_titles st))"
    by (rule section_titles_distinct [OF dedup names])
  have "\<exists>B. log s5 = log s4 @ B \<and> created_titles B = ?T"
  proof (cases "flatten_repeated_fields b")
    case True
    with body have "export_flattened b path s4 = Inr s5"
      by simp
    from export_flattened_log [OF sp this] obtain C H D where
      l: "log s5 = log s4 @ [ExportTo path] @ C @ H @ D"
      and C: "created_titles C = (if csv_reader b path = [] then [] else [''raw''])"
      and H: "list_all header_call H" and D: "list_all data_call D"
      by blast
    from H have "created_titles H = []"
      by (intro created_titles_none) (auto simp: list_all_iff header_call_def dest: row_call_not_add)
    moreover from D have "created_titles D = []"
      by (intro created_titles_none) (auto simp: list_all_iff dest: data_call_not_add)
    ultimately have "created_titles ([ExportTo path] @ C @ H @ D) = ?T"
      using C True by simp
    with l show ?thesis by blast
  next
    case False
    with body have "export_tabular b data s4 = Inr s5"
      by simp
    from export_tabular_log [OF sp this] obtain H D where
      l: "log s5 = log s4 @ add_calls b (sections b)
                    (section_titles b (sections b) (worksheet_titles s4)) @ H @ D"
      and H: "list_all header_call H" and D: "list_all data_call D"
      by blast
    from H have "created_titles H = []"
      by (intro created_titles_none) (auto simp: list_all_iff header_call_def dest: row_call_not_add)
    moreover from D have "created_titles D = []"
      by (intro created_titles_none) (auto simp: list_all_iff dest: data_call_not_add)
    ultimately have "created_titles (add_calls b (sections b)
                    (section_titles b (sections b) (worksheet_titles s4)) @ H @ D) = ?T"
      using False by (simp add: created_titles_add_calls wt)
    with l show ?thesis by blast
  qed
  then obtain B where lb: "log s5 = log s4 @ B" and tb: "created_titles B = ?T"
    by blast
  have "\<exists>X. log s6 = log s5 @ X \<and> created_titles X = ?X"
  proof (cases "export_xlsform b")
    case True
    with xls insert_xlsform_titles [of b s5 s6] show ?thesis by auto
  next
    case False
    with xls show ?thesis by auto
  qed
  then obtain X where lx: "log s6 = log s5 @ X" and tx: "created_titles X = ?X"
    by blast
  from delete_default_titles [of s6] obtain D where
    ld: "log st' = log s6 @ GetWorksheetsFeed # D" and td: "created_titles D = []"
    unfolding st' by blast
  let ?L = "[Login, New (spreadsheet_title b), AddServiceAccountToSpreadsheet] @ B @ X
      @ GetWorksheetsFeed # D"
  have l: "log st' = log st @ ?L"
    by (simp add: ld lx lb l4)
  have t: "created_titles ?L = ?T @ ?X"
    by (simp add: tb tx td)
  have "\<not> export_xlsform b \<longrightarrow> distinct (created_titles ?L)"
    unfolding t using d by simp
  with l t d show ?thesis by blast
qed

theorem section_titles_unique_witness:
  "\<exists>st' L. export (demo\<lparr>export_xlsform := False\<rparr>) ''p'' demo_data fresh = Inr st'
      \<and> log st' = L \<and> created_titles L = [''survey'', ''survey_kids'']
      \<and> distinct (created_titles L)"
proof -
  let ?b = "demo\<lparr>export_xlsform := False\<rparr>"
  define st' where "st' = projr (export ?b ''p'' demo_data fresh)"
  have dedup: "\<forall>d ex. get_valid_sheet_name ?b d ex \<notin> set ex"
    by (simp add: demo_def get_valid_sheet_name_spec_fresh)
  have names: "distinct (map name (sections ?b))"
    by (simp add: demo_def)
  have run: "export ?b ''p'' demo_data fresh = Inr st'"
    unfolding st'_def by (simp add: eval_defs demo_def demo_data_def fresh_def)
  from section_titles_unique [OF dedup names run] obtain L where
    l: "log st' = log fresh @ L"
    and t: "created_titles L =
          (if flatten_repeated_fields ?b then (if csv_reader ?b ''p'' = [] then [] else [''raw''])
           else section_titles ?b (sections ?b) (worksheet_titles fresh))
          @ (if export_xlsform ?b then xlsform_sheet_names ?b else [])"
    and d: "\<not> export_xlsform ?b \<longrightarrow> distinct (created_titles L)"
    by blast
  from t have "created_titles L = [''survey'', ''survey_kids'']"
    by (simp add: demo_def fresh_def Let_def get_valid_sheet_name_spec_def slash_to_underscore_def)
  moreover from d have "distinct (created_titles L)"
    by simp
  moreover from l have "log st' = L"
    by (simp add: fresh_def)
  ultimately show ?thesis
    using run by blast
qed

text \<open>
  C1 as stated fails: a form whose main section is named \<^verbatim>\<open>survey\<close>, exported in
  tabular mode with its XLSForm, gets two worksheets titled \<^verbatim>\<open>survey\<close>.
\<close>

theorem titles_not_unique:
  "\<not> isl (export demo ''p'' demo_data fresh)
   \<and> created_titles (log (projr (export demo ''p'' demo_data fresh)))
       = [''survey'', ''survey_kids'', ''survey'']
   \<and> \<not> distinct (created_titles (log (projr (export demo ''p'' demo_data fresh))))"
  by (simp add: eval_defs demo_def demo_data_def fresh_def)

section \<open>The order of the steps of an export\<close>

lemma not_new:
  "is_add c \<Longrightarrow> \<not> is_new c"
  "header_call c \<Longrightarrow> \<not> is_new c"
  "data_call c \<Longrightarrow> \<not> is_new c"
  "xls_call c \<Longrightarrow> \<not> is_new c"
  by (cases c; simp add: header_call_def)+

lemma export_without_refresh_token:
  assumes "refresh_token_of b (google_token b) = None \<or> refresh_token_of b (google_token b) = Some []"
  shows "export b path data s = Inl (AssertionError, s)"
  using assms by (auto simp: export_def login_with_auth_token_def)

text \<open>
  C2. The calls of an export that returns are, in this order: the login, the creation
  of the one new spreadsheet, the sharing with the service account, (in a flattened
  export) the building of the CSV, the calls that add worksheets, the calls that write
  row 1 (the headers), the calls that write data rows (appended rows, or rows from 2
  on), the calls of the XLSForm insertion, which are made only when
  \<^verbatim>\<open>export_xlsform\<close> is set, the fetch of the worksheets feed and the deletion of
  worksheets titled \<^verbatim>\<open>Sheet1\<close>. No other call creates a spreadsheet.
\<close>

theorem export_steps_in_order:
  fixes b :: "('d, 'k, 'v) builder"
  assumes run: "export b path data st = Inr st'"
  shows "\<exists>C H D X Del.
      log st' = log st @ [Login, New (spreadsheet_title b), AddServiceAccountToSpreadsheet]
         @ (if flatten_repeated_fields b then [ExportTo path] else [])
         @ C @ H @ D @ X @ GetWorksheetsFeed # Del
      \<and> list_all is_add C \<and> list_all header_call H \<and> list_all data_call D
      \<and> list_all xls_call X \<and> (\<not> export_xlsform b \<longrightarrow> X = [])
      \<and> (\<forall>c \<in> set Del. \<exists>ws. c = DelWorksheet ws \<and> wtitle (store st' ws) = ''Sheet1'')
      \<and> (\<forall>c \<in> set (C @ H @ D @ X @ Del). \<not> is_new c)"
proof -
  from export_unfold [OF run] obtain s4 s5 s6 where
    l4: "log s4 = log st @ [Login, New (spreadsheet_title b), AddServiceAccountToSpreadsheet]"
    and sp: "spreadsheet s4 \<noteq> None"
    and body: "(if flatten_repeated_fields b then export_flattened b path s4
          else export_tabular b data s4) = Inr s5"
    and xls: "(if export_xlsform b then insert_xlsform b s5 else Inr s5) = Inr s6"
    and st': "st' = delete_default s6"
    by blast
  have "\<exists>C H D. log s5 = log s4 @ (if flatten_repeated_fields b then [ExportTo path] else [])
            @ C @ H @ D
          \<and> list_all is_add C \<and> list_all header_call H \<and> list_all data_call D"
  proof (cases "flatten_repeated_fields b")
    case True
    with body have "export_flattened b path s4 = Inr s5"
      by simp
    from export_flattened_log [OF sp this] True show ?thesis
      by auto
  next
    case False
    with body have "export_tabular b data s4 = Inr s5"
      by simp
    from export_tabular_log [OF sp this] obtain H D where
      "log s5 = log s4 @ add_calls b (sections b)
                    (section_titles b (sections b) (worksheet_titles s4)) @ H @ D"
      "list_all header_call H" "list_all data_call D"
      by blast
    with False list_all_add_calls [of b "sections b"] show ?thesis
      by auto
  qed
  then obtain C H D where l5: "log s5 = log s4
        @ (if flatten_repeated_fields b then [ExportTo path] else []) @ C @ H @ D"
      and C: "list_all is_add C" and H: "list_all header_call H" and D: "list_all data_call D"
    by blast
  have "\<exists>X. log s6 = log s5 @ X \<and> list_all xls_call X \<and> (\<not> export_xlsform b \<longrightarrow> X = [])"
  proof (cases "export_xlsform b")
    case True
    with xls insert_xlsform_grows [of b s5 s6] show ?thesis
      by (auto simp: grows_def)
  next
    case False
    with xls show ?thesis by auto
  qed
  then obtain X where l6: "log s6 = log s5 @ X" and X: "list_all xls_call X"
    and X0: "\<not> export_xlsform b \<longrightarrow> X = []"
    by blast
  from delete_default_titles [of s6] obtain Del where
    l7: "log st' = log s6 @ GetWorksheetsFeed # Del"
    and Del: "\<forall>c \<in> set Del. \<exists>ws. c = DelWorksheet ws \<and> wtitle (store st' ws) = ''Sheet1''"
    and Deln: "\<forall>c \<in> set Del. \<not> is_new c"
    unfolding st' by blast
  have l: "log st' = log st @ [Login, New (spreadsheet_title b), AddServiceAccountToSpreadsheet]
         @ (if flatten_repeated_fields b then [ExportTo path] else [])
         @ C @ H @ D @ X @ GetWorksheetsFeed # Del"
    by (simp add: l7 l6 l5 l4)
  have n: "\<forall>c \<in> set (C @ H @ D @ X @ Del). \<not> is_new c"
    using C H D X Deln by (auto simp: list_all_iff dest: not_new)
  show ?thesis
    using l C H D X X0 Del n by blast
qed

theorem export_steps_in_order_witness:
  "(\<exists>st' C H D X Del. export demo ''p'' demo_data fresh = Inr st'
      \<and> log st' = [Login, New ''export'', AddServiceAccountToSpreadsheet]
         @ C @ H @ D @ X @ GetWorksheetsFeed # Del
      \<and> list_all is_add C \<and> list_all header_call H \<and> list_all data_call D
      \<and> list_all xls_call X)
   \<and> (\<exists>st' C H D Del.
        export (demo\<lparr>flatten_repeated_fields := True, export_xlsform := False\<rparr>) ''p'' demo_data fresh
          = Inr st'
      \<and> log st' = [Login, New ''export'', AddServiceAccountToSpreadsheet, ExportTo ''p'']
         @ C @ H @ D @ GetWorksheetsFeed # Del
      \<and> list_all is_add C \<and> list_all header_call H \<and> list_all data_call D)"
proof -
  define st' where "st' = projr (export demo ''p'' demo_data fresh)"
  have run: "export demo ''p'' demo_data fresh = Inr st'"
    unfolding st'_def by (simp add: eval_defs demo_def demo_data_def fresh_def)
  from export_steps_in_order [OF run] obtain C H D X Del where
    "log st' = log fresh @ [Login, New (spreadsheet_title demo), AddServiceAccountToSpreadsheet]
         @ (if flatten_repeated_fields demo then [ExportTo ''p''] else [])
         @ C @ H @ D @ X @ GetWorksheetsFeed # Del"
    and c: "list_all is_add C" "list_all header_call H" "list_all data_call D" "list_all xls_call X"
    by blast
  then have "log st' = [Login, New ''export'', AddServiceAccountToSpreadsheet]
         @ C @ H @ D @ X @ GetWorksheetsFeed # Del"
    by (simp add: demo_def fresh_def)
  with run c have a: "\<exists>st' C H D X Del. export demo ''p'' demo_data fresh = Inr st'
      \<and> log st' = [Login, New ''export'', AddServiceAccountToSpreadsheet]
         @ C @ H @ D @ X @ GetWorksheetsFeed # Del
      \<and> list_all is_add C \<and> list_all header_call H \<and> list_all data_call D
      \<and> list_all xls_call X"
    by blast
  let ?b = "demo\<lparr>flatten_repeated_fields := True, export_xlsform := False\<rparr>"
  define s' where "s' = projr (export ?b ''p'' demo_data fresh)"
  have run2: "export ?b ''p'' demo_data fresh = Inr s'"
    unfolding s'_def by (simp add: eval_defs demo_def demo_data_def fresh_def)
  from export_steps_in_order [OF run2] obtain C2 H2 D2 X2 Del2 where
    l2: "log s' = log fresh @ [Login, New (spreadsheet_title ?b), AddServiceAccountToSpreadsheet]
         @ (if flatten_repeated_fields ?b then [ExportTo ''p''] else [])
         @ C2 @ H2 @ D2 @ X2 @ GetWorksheetsFeed # Del2"
    and c2: "list_all is_add C2" "list_all header_call H2" "list_all data_call D2"
    and x2: "\<not> export_xlsform ?b \<longrightarrow> X2 = []"
    by blast
  from x2 have "X2 = []"
    by simp
  with l2 have "log s' = [Login, New ''export'', AddServiceAccountToSpreadsheet, ExportTo ''p'']
         @ C2 @ H2 @ D2 @ GetWorksheetsFeed # Del2"
    by (simp add: demo_def fresh_def)
  with run2 c2 have b: "\<exists>st' C H D Del. export ?b ''p'' demo_data fresh = Inr st'
      \<and> log st' = [Login, New ''export'', AddServiceAccountToSpreadsheet, ExportTo ''p'']
         @ C @ H @ D @ GetWorksheetsFeed # Del
      \<and> list_all is_add C \<and> list_all header_call H \<and> list_all data_call D"
    by blast
  from a b show ?thesis by (rule conjI)
qed

section \<open>The tabular export: worksheets and headers\<close>

lemma same_sheets_refl: "same_sheets s s"
  by (simp add: same_sheets_def)

lemma same_sheets_trans: "same_sheets s1 s2 \<Longrightarrow> same_sheets s2 s3 \<Longrightarrow> same_sheets s1 s3"
  unfolding same_sheets_def by (auto intro: order_trans)

lemma update_row_same: "same_sheets st (update_row ws idx vs st)"
  by (simp add: same_sheets_def)

lemma insert_header_same:
  assumes "insert_header b sec st = Inr st'"
  shows "same_sheets st st'"
  using assms update_row_same
  by (auto simp: insert_header_def Let_def split: option.splits)

lemma for_each_same:
  assumes step: "\<And>x s s'. body x s = Inr s' \<Longrightarrow> same_sheets s s'"
    and run: "for_each body xs st = Inr st'"
  shows "same_sheets st st'"
proof -
  have s: "True \<and> same_sheets s s'" if "body x s = Inr s'" for x s s'
    using step [OF that] by simp
  from for_each_rel [of xs "\<lambda>s. True" body same_sheets st st',
      OF s same_sheets_refl same_sheets_trans TrueI run]
  show ?thesis by simp
qed

lemma insert_headers_same:
  assumes "insert_headers b st = Inr st'"
  shows "same_sheets st st'"
  using for_each_same [of "insert_header b" "sections b" st st'] insert_header_same assms
  by (auto simp: insert_headers_def)

lemma append_row_store:
  "store (append_row ws vs st) h =
     (if h = ws then (store st ws)\<lparr>row_count := Suc (row_count (store st ws)),
          col_count := (if col_count (store st ws) < length vs then length vs
                        else col_count (store st ws)),
          cells := put_cells (row_cells (Suc (row_count (store st ws))) 1 vs) (cells (store st ws))\<rparr>
      else store st h)"
  unfolding append_row_def Let_def enumerate_row_cells by simp

lemma append_row_same: "same_sheets st (append_row ws vs st) \<and> keeps_row1 st (append_row ws vs st)"
  by (simp add: same_sheets_def keeps_row1_def append_row_store put_cells_row)

lemma data_frame_refl: "data_frame s s"
  by (simp add: data_frame_def same_sheets_def keeps_row1_def)

lemma data_frame_trans:
  assumes "data_frame s1 s2" and "data_frame s2 s3"
  shows "data_frame s1 s3"
proof -
  have "keeps_row1 s1 s3"
    unfolding keeps_row1_def
  proof (intro allI impI)
    fix h c assume r: "1 \<le> row_count (store s1 h)"
    with assms(1) have "1 \<le> row_count (store s2 h)"
      unfolding data_frame_def same_sheets_def by (meson order_trans)
    with assms r show "cells (store s3 h) (1, c) = cells (store s1 h) (1, c)"
      by (simp add: data_frame_def keeps_row1_def)
  qed
  with assms show ?thesis
    by (auto simp: data_frame_def intro: same_sheets_trans)
qed

lemma write_row_data_frame: "data_frame st (write_row ptn d ws fs titles st)"
  by (simp add: write_row_def data_frame_def append_row_same)

lemma write_rows_data_frame: "data_frame st (write_rows b sec ws fs rows st)"
proof (induction rows arbitrary: st)
  case Nil
  then show ?case by (simp add: data_frame_refl)
next
  case (Cons r rows)
  from data_frame_trans [OF write_row_data_frame Cons.IH] show ?case by simp
qed

lemma insert_section_data_data_frame:
  assumes "insert_section_data b out sec st = Inr st'"
  shows "data_frame st st'"
  using assms
  by (auto simp: insert_section_data_def Let_def write_row_data_frame write_rows_data_frame data_frame_refl
           split: option.splits section_data.splits)

lemma insert_record_data_frame:
  assumes "insert_record b p (ix, st) = Inr (ix', st')"
  shows "data_frame st st'"
proof -
  from assms obtain out where run: "for_each (insert_section_data b out) (sections b) st = Inr st'"
    by (auto simp: insert_record_def Let_def split: prod.splits sum.splits)
  have s: "True \<and> data_frame s s'" if "insert_section_data b out x s = Inr s'" for x s s'
    using insert_section_data_data_frame [OF that] by simp
  from for_each_rel [of "sections b" "\<lambda>s. True" "insert_section_data b out" data_frame st st',
      OF s data_frame_refl data_frame_trans TrueI run]
  show ?thesis by simp
qed

lemma insert_data_data_frame:
  assumes "insert_data b data st = Inr st'"
  shows "data_frame st st'"
proof -
  from assms obtain ix where run: "for_each (insert_record b) (enumerate 1 data) (Map.empty, st) = Inr (ix, st')"
    by (auto simp: insert_data_def split: sum.splits prod.splits)
  define R where "R = (\<lambda>(p :: ('b \<Rightarrow> 'c option) \<times> state) (q :: ('b \<Rightarrow> 'c option) \<times> state).
      data_frame (snd p) (snd q))"
  have step: "True \<and> R s s'" if "insert_record b x s = Inr s'" for x s s'
    using that insert_record_data_frame [of b x "fst s" "snd s" "fst s'" "snd s'"]
    by (simp add: R_def)
  have refl: "R s s" for s
    by (simp add: R_def data_frame_refl)
  have trans: "R s1 s2 \<Longrightarrow> R s2 s3 \<Longrightarrow> R s1 s3" for s1 s2 s3
    unfolding R_def by (rule data_frame_trans)
  from for_each_rel [of "enumerate 1 data" "\<lambda>s. True" "insert_record b" R "(Map.empty, st)" "(ix, st')",
      OF step refl trans TrueI run]
  show ?thesis by (simp add: R_def)
qed

lemma export_tabular_states:
  assumes sp: "spreadsheet st \<noteq> None" and run: "export_tabular b data st = Inr st'"
  shows "\<exists>s1 s2. for_each (create_worksheet b) (sections b) st = Inr s1
      \<and> insert_headers b s1 = Inr s2 \<and> insert_data b data s2 = Inr st'
      \<and> same_sheets s1 s2 \<and> data_frame s2 st'"
proof -
  from run obtain s1 s2 where c: "create_worksheets b st = Inr s1"
    and h: "insert_headers b s1 = Inr s2" and d: "insert_data b data s2 = Inr st'"
    by (auto simp: export_tabular_def split: sum.splits)
  from c h d insert_headers_same [OF h] insert_data_data_frame [OF d] show ?thesis
    by (auto simp: create_worksheets_def)
qed

text \<open>
  C5, as the code has it. In a tabular export whose sections have distinct names, the
  worksheets added to the spreadsheet are exactly one per section, in section order:
  the builder maps the name of the i-th section to the i-th new worksheet, which bears
  the i-th section title, and no other worksheet is created. The flattened export
  creates no worksheet per section: it adds the single worksheet \<^verbatim>\<open>raw\<close>, or none
  when the CSV has no rows.
\<close>

theorem one_worksheet_per_section:
  fixes b :: "('d, 'k, 'v) builder"
  assumes sp: "spreadsheet st \<noteq> None"
    and names: "distinct (map name (sections b))"
    and run: "export_tabular b data st = Inr st'"
  shows "members st' = members st @ [next_id st..<next_id st + length (sections b)]
      \<and> (\<forall>i<length (sections b).
            worksheets st' (name (sections b ! i)) = Some (next_id st + i)
            \<and> wtitle (store st' (next_id st + i))
                = section_titles b (sections b) (worksheet_titles st) ! i)
      \<and> (\<exists>L. log st' = log st @ L \<and> length (created_titles L) = length (sections b))
      \<and> (\<forall>s. spreadsheet s \<noteq> None \<longrightarrow>
            (\<exists>s'. export_flattened b path s = Inr s'
               \<and> members s' = members s @ (if csv_reader b path = [] then [] else [next_id s])))"
proof -
  from export_tabular_states [OF sp run] obtain s1 s2 where
    c: "for_each (create_worksheet b) (sections b) st = Inr s1"
    and f1: "same_sheets s1 s2" and f2: "data_frame s2 st'"
    by blast
  from create_worksheets_run [OF sp, of b "sections b"] c names
  have m1: "members s1 = members st @ [next_id st..<next_id st + length (sections b)]"
    and n1: "\<forall>i<length (sections b). store s1 (next_id st + i) =
            \<lparr>wtitle = section_titles b (sections b) (worksheet_titles st) ! i, row_count = 1,
             col_count = length (elements (sections b ! i)) + length (EXTRA_FIELDS b),
             cells = (\<lambda>_. None)\<rparr>"
    and w1: "\<forall>i<length (sections b). worksheets s1 (name (sections b ! i)) = Some (next_id st + i)"
    by auto
  from f1 f2 have eq: "members st' = members s1" "worksheets st' = worksheets s1"
    "\<forall>h. wtitle (store st' h) = wtitle (store s1 h)"
    by (simp_all add: same_sheets_def data_frame_def)
  have a: "members st' = members st @ [next_id st..<next_id st + length (sections b)]"
    by (simp add: eq m1)
  have b: "\<forall>i<length (sections b).
            worksheets st' (name (sections b ! i)) = Some (next_id st + i)
            \<and> wtitle (store st' (next_id st + i))
                = section_titles b (sections b) (worksheet_titles st) ! i"
    using n1 w1 by (simp add: eq)
  from export_tabular_log [OF sp run] obtain H D where
    l: "log st' = log st @ add_calls b (sections b)
                    (section_titles b (sections b) (worksheet_titles st)) @ H @ D"
    and H: "list_all header_call H" and D: "list_all data_call D"
    by blast
  from H have "created_titles H = []"
    by (intro created_titles_none) (auto simp: list_all_iff header_call_def dest: row_call_not_add)
  moreover from D have "created_titles D = []"
    by (intro created_titles_none) (auto simp: list_all_iff dest: data_call_not_add)
  ultimately have "length (created_titles (add_calls b (sections b)
                    (section_titles b (sections b) (worksheet_titles st)) @ H @ D))
      = length (sections b)"
    by (simp add: created_titles_add_calls)
  with l have c': "\<exists>L. log st' = log st @ L \<and> length (created_titles L) = length (sections b)"
    by blast
  have d: "\<forall>s. spreadsheet s \<noteq> None \<longrightarrow>
            (\<exists>s'. export_flattened b path s = Inr s'
               \<and> members s' = members s @ (if csv_reader b path = [] then [] else [next_id s]))"
  proof (intro allI impI)
    fix s :: state assume s: "spreadsheet s \<noteq> None"
    show "\<exists>s'. export_flattened b path s = Inr s'
               \<and> members s' = members s @ (if csv_reader b path = [] then [] else [next_id s])"
    proof (cases "csv_reader b path = []")
      case True
      then show ?thesis by (simp add: export_flattened_empty)
    next
      case False
      from export_flattened_rows [OF s False] False show ?thesis by simp
    qed
  qed
  from a b c' d show ?thesis by blast
qed

theorem one_worksheet_per_section_witness:
  "\<exists>st'. export_tabular demo demo_data (fresh\<lparr>spreadsheet := Some ''key1''\<rparr>) = Inr st'
     \<and> members st' = [0, 1]
     \<and> worksheets st' ''survey'' = Some 0 \<and> wtitle (store st' 0) = ''survey''
     \<and> worksheets st' ''survey/kids'' = Some 1 \<and> wtitle (store st' 1) = ''survey_kids''
     \<and> (\<exists>s'. export_flattened demo ''p'' (fresh\<lparr>spreadsheet := Some ''key1''\<rparr>) = Inr s'
            \<and> members s' = [0])"
proof -
  let ?st = "fresh\<lparr>spreadsheet := Some ''key1''\<rparr>"
  define st' where "st' = projr (export_tabular demo demo_data ?st)"
  have sp: "spreadsheet ?st \<noteq> None"
    by simp
  have names: "distinct (map name (sections demo))"
    by (simp add: demo_def)
  have run: "export_tabular demo demo_data ?st = Inr st'"
    unfolding st'_def by (simp add: eval_defs demo_def demo_data_def fresh_def)
  note t = one_worksheet_per_section [OF sp names run]
  have n: "next_id ?st = 0" "length (sections demo) = 2"
    by (simp_all add: fresh_def demo_def)
  from t have m: "members st' = [0, 1]"
    by (simp add: n fresh_def upt_conv_Cons)
  from t have w: "\<forall>i<length (sections demo).
            worksheets st' (name (sections demo ! i)) = Some (next_id ?st + i)
            \<and> wtitle (store st' (next_id ?st + i))
                = section_titles demo (sections demo) (worksheet_titles ?st) ! i"
    by blast
  have ts: "section_titles demo (sections demo) (worksheet_titles ?st) = [''survey'', ''survey_kids'']"
    by (simp add: demo_def fresh_def Let_def get_valid_sheet_name_spec_def slash_to_underscore_def)
  from w [rule_format, of 0] have w0: "worksheets st' ''survey'' = Some 0 \<and> wtitle (store st' 0) = ''survey''"
    unfolding ts by (simp add: n demo_def fresh_def)
  from w [rule_format, of 1] have w1: "worksheets st' ''survey/kids'' = Some 1 \<and> wtitle (store st' 1) = ''survey_kids''"
    unfolding ts by (simp add: n demo_def fresh_def)
  from t have "\<forall>s. spreadsheet s \<noteq> None \<longrightarrow>
            (\<exists>s'. export_flattened demo ''p'' s = Inr s'
               \<and> members s' = members s @ (if csv_reader demo ''p'' = [] then [] else [next_id s]))"
    by blast
  from this [rule_format, OF sp]
  have f: "\<exists>s'. export_flattened demo ''p'' ?st = Inr s' \<and> members s' = [0]"
    by (simp add: demo_def fresh_def)
  from run m w0 w1 f show ?thesis by blast
qed

text \<open>
  C5 as stated fails: a flattened export of a form with two sections creates one
  worksheet for the survey data, titled \<^verbatim>\<open>raw\<close>.
\<close>

theorem flattened_export_one_sheet:
  "\<not> isl (export (demo\<lparr>flatten_repeated_fields := True, export_xlsform := False\<rparr>) ''p'' demo_data fresh)
   \<and> created_titles (log (projr (export (demo\<lparr>flatten_repeated_fields := True,
         export_xlsform := False\<rparr>) ''p'' demo_data fresh))) = [''raw'']
   \<and> length (sections (demo\<lparr>flatten_repeated_fields := True, export_xlsform := False\<rparr>)) = 2"
  by (simp add: eval_defs demo_def demo_data_def fresh_def)

lemma insert_header_eq:
  "insert_header b sec s =
     (case worksheets s (name sec) of
        None \<Rightarrow> Inl (KeyError, s)
      | Some ws \<Rightarrow> Inr (update_row ws 1 (headers_of b sec) s))"
  unfolding insert_header_def headers_of_def Let_def by (rule refl)

lemma insert_header_step:
  assumes "for_each (insert_header b) (sec # secs) s = Inr s'"
  obtains ws where "worksheets s (name sec) = Some ws"
    and "for_each (insert_header b) secs (update_row ws 1 (headers_of b sec) s) = Inr s'"
proof -
  from assms obtain s1 where a: "insert_header b sec s = Inr s1"
    and r: "for_each (insert_header b) secs s1 = Inr s'"
    by (auto split: sum.splits)
  from a obtain ws where "worksheets s (name sec) = Some ws"
    and "s1 = update_row ws 1 (headers_of b sec) s"
    unfolding insert_header_eq by (auto split: option.splits)
  with r that show ?thesis by blast
qed

lemma insert_headers_untouched:
  assumes "for_each (insert_header b) secs s = Inr s'"
    and "\<forall>sec \<in> set secs. worksheets s (name sec) \<noteq> Some h"
  shows "store s' h = store s h"
  using assms
proof (induction secs arbitrary: s)
  case Nil
  then show ?case by simp
next
  case (Cons sec secs)
  from Cons.prems(1) obtain ws where ws: "worksheets s (name sec) = Some ws"
    and run: "for_each (insert_header b) secs (update_row ws 1 (headers_of b sec) s) = Inr s'"
    by (rule insert_header_step)
  from Cons.prems(2) ws have ne: "h \<noteq> ws"
    by auto
  from Cons.prems(2) have "\<forall>x \<in> set secs. worksheets (update_row ws 1 (headers_of b sec) s) (name x) \<noteq> Some h"
    by simp
  from Cons.IH [OF run this] ne show ?case
    by (simp add: update_row_other)
qed

lemma insert_headers_cells:
  assumes "for_each (insert_header b) secs s = Inr s'"
    and "distinct (map name secs)"
    and "inj_on (worksheets s) (name ` set secs)"
  shows "\<forall>sec \<in> set secs. \<exists>ws. worksheets s (name sec) = Some ws
      \<and> (\<forall>j<length (headers_of b sec). cells (store s' ws) (1, j + 1) = Some (headers_of b sec ! j))"
  using assms
proof (induction secs arbitrary: s)
  case Nil
  then show ?case by simp
next
  case (Cons sec secs)
  from Cons.prems(1) obtain ws where ws: "worksheets s (name sec) = Some ws"
    and run: "for_each (insert_header b) secs (update_row ws 1 (headers_of b sec) s) = Inr s'"
    by (rule insert_header_step)
  let ?s1 = "update_row ws 1 (headers_of b sec) s"
  have rest: "\<forall>x \<in> set secs. \<exists>w. worksheets s (name x) = Some w
      \<and> (\<forall>j<length (headers_of b x). cells (store s' w) (1, j + 1) = Some (headers_of b x ! j))"
    using Cons.IH [OF run] Cons.prems(2,3) by (simp add: inj_on_def)
  have other: "\<forall>x \<in> set secs. worksheets ?s1 (name x) \<noteq> Some ws"
  proof
    fix x assume x: "x \<in> set secs"
    show "worksheets ?s1 (name x) \<noteq> Some ws"
    proof
      assume "worksheets ?s1 (name x) = Some ws"
      with ws have "worksheets s (name x) = worksheets s (name sec)"
        by simp
      with Cons.prems(3) x have "name x = name sec"
        by (auto simp: inj_on_def)
      with Cons.prems(2) x show False
        by (metis distinct.simps(2) imageI list.simps(9) set_map)
    qed
  qed
  from insert_headers_untouched [OF run other] have "store s' ws = store ?s1 ws" .
  then have first: "\<forall>j<length (headers_of b sec). cells (store s' ws) (1, j + 1) = Some (headers_of b sec ! j)"
    by (simp add: update_row_cells)
  from ws first rest show ?case by simp
qed

lemma insert_headers_calls:
  assumes "for_each (insert_header b) secs s = Inr s'"
  shows "\<exists>H. log s' = log s @ H \<and> list_all header_call H
      \<and> (\<forall>sec \<in> set secs. \<exists>ws. worksheets s (name sec) = Some ws
            \<and> UpdateCells ws (row_cells 1 1 (headers_of b sec)) \<in> set H)"
  using assms
proof (induction secs arbitrary: s)
  case Nil
  then show ?case by simp
next
  case (Cons sec secs)
  from Cons.prems(1) obtain ws where ws: "worksheets s (name sec) = Some ws"
    and run: "for_each (insert_header b) secs (update_row ws 1 (headers_of b sec) s) = Inr s'"
    by (rule insert_header_step)
  let ?s1 = "update_row ws 1 (headers_of b sec) s"
  let ?H1 = "(if col_count (store s ws) < length (headers_of b sec)
              then [Resize ws (length (headers_of b sec))] else [])
        @ cell_calls ws 1 1 (headers_of b sec) @ [UpdateCells ws (row_cells 1 1 (headers_of b sec))]"
  have l1: "log ?s1 = log s @ ?H1"
    by (subst update_row_eq) simp
  have h1: "list_all header_call ?H1"
    by (simp add: header_call_eq list_all_cell_calls list_all_row_cells)
  from Cons.IH [OF run] obtain H2 where l2: "log s' = log ?s1 @ H2" and h2: "list_all header_call H2"
    and r: "\<forall>x \<in> set secs. \<exists>w. worksheets s (name x) = Some w
            \<and> UpdateCells w (row_cells 1 1 (headers_of b x)) \<in> set H2"
    by auto
  show ?case
  proof (intro exI [of _ "?H1 @ H2"] conjI)
    show "log s' = log s @ ?H1 @ H2"
      unfolding l2 l1 by simp
    show "list_all header_call (?H1 @ H2)"
      using h1 h2 by simp
    show "\<forall>x \<in> set (sec # secs). \<exists>w. worksheets s (name x) = Some w
            \<and> UpdateCells w (row_cells 1 1 (headers_of b x)) \<in> set (?H1 @ H2)"
      using ws r by auto
  qed
qed

lemma length_headers_of [simp]:
  "length (headers_of b sec) = length (elements sec) + length (EXTRA_FIELDS b)"
  by (simp add: headers_of_def)

lemma headers_of_nth:
  "j < length (elements sec) + length (EXTRA_FIELDS b) \<Longrightarrow>
     headers_of b sec ! j = PStr ((map title (elements sec) @ EXTRA_FIELDS b) ! j)"
  unfolding headers_of_def by (rule nth_map) simp

lemma header_cells_upt:
  "row_cells 1 1 (headers_of b sec) =
     map (\<lambda>j. (1, j + 1, PStr ((map title (elements sec) @ EXTRA_FIELDS b) ! j)))
       [0..<length (elements sec) + length (EXTRA_FIELDS b)]"
  unfolding row_cells_upt by (rule nth_equalityI) (simp_all add: headers_of_nth)

text \<open>
  C6. In a tabular export whose sections have distinct names, row 1 of the worksheet
  of every section holds, when the export returns, the titles of the section's elements
  in element order followed by the extra field names. The calls that write the headers
  come after the calls that add the worksheets and before every call that appends a
  data row; the header of each section is written by one \<^verbatim>\<open>update_cells\<close> call on its
  worksheet.
\<close>

theorem headers_in_row_one:
  fixes b :: "('d, 'k, 'v) builder"
  assumes sp: "spreadsheet st \<noteq> None"
    and names: "distinct (map name (sections b))"
    and run: "export_tabular b data st = Inr st'"
  shows "(\<forall>i<length (sections b).
            worksheets st' (name (sections b ! i)) = Some (next_id st + i)
            \<and> (\<forall>j<length (elements (sections b ! i)) + length (EXTRA_FIELDS b).
                  cells (store st' (next_id st + i)) (1, j + 1)
                    = Some (PStr ((map title (elements (sections b ! i)) @ EXTRA_FIELDS b) ! j))))
      \<and> (\<exists>C H D. log st' = log st @ C @ H @ D
            \<and> list_all is_add C \<and> list_all header_call H
            \<and> (\<forall>c \<in> set D. \<exists>ws vs. c = AppendRow ws vs)
            \<and> (\<forall>i<length (sections b).
                  UpdateCells (next_id st + i)
                    (map (\<lambda>j. (1, j + 1, PStr ((map title (elements (sections b ! i)) @ EXTRA_FIELDS b) ! j)))
                       [0..<length (elements (sections b ! i)) + length (EXTRA_FIELDS b)]) \<in> set H))"
proof -
  let ?secs = "sections b"
  from export_tabular_states [OF sp run] obtain s1 s2 where
    c: "for_each (create_worksheet b) ?secs st = Inr s1"
    and h: "insert_headers b s1 = Inr s2" and d: "insert_data b data s2 = Inr st'"
    and f1: "same_sheets s1 s2" and f2: "data_frame s2 st'"
    by blast
  from create_worksheets_run [OF sp, of b ?secs] c names
  have l1: "log s1 = log st @ add_calls b ?secs (section_titles b ?secs (worksheet_titles st))"
    and n1: "\<forall>i<length ?secs. store s1 (next_id st + i) =
            \<lparr>wtitle = section_titles b ?secs (worksheet_titles st) ! i, row_count = 1,
             col_count = length (elements (?secs ! i)) + length (EXTRA_FIELDS b),
             cells = (\<lambda>_. None)\<rparr>"
    and w1: "\<forall>i<length ?secs. worksheets s1 (name (?secs ! i)) = Some (next_id st + i)"
    by auto
  have inj: "inj_on (worksheets s1) (name ` set ?secs)"
  proof (rule inj_onI)
    fix x y assume "x \<in> name ` set ?secs" "y \<in> name ` set ?secs"
      and eq: "worksheets s1 x = worksheets s1 y"
    then obtain i j where i: "i < length ?secs" "x = name (?secs ! i)"
      and j: "j < length ?secs" "y = name (?secs ! j)"
      by (auto simp: in_set_conv_nth)
    with w1 eq have "i = j"
      by simp
    with i j show "x = y" by simp
  qed
  have h': "for_each (insert_header b) ?secs s1 = Inr s2"
    using h by (simp add: insert_headers_def)
  have ws: "worksheets st' = worksheets s1"
    using f1 f2 by (simp add: same_sheets_def data_frame_def)
  have cells: "worksheets st' (name (?secs ! i)) = Some (next_id st + i)
      \<and> (\<forall>j<length (elements (?secs ! i)) + length (EXTRA_FIELDS b).
            cells (store st' (next_id st + i)) (1, j + 1)
              = Some (PStr ((map title (elements (?secs ! i)) @ EXTRA_FIELDS b) ! j)))"
    if i: "i < length ?secs" for i
  proof -
    from i have mem: "?secs ! i \<in> set ?secs"
      by simp
    from insert_headers_cells [OF h' names inj, rule_format, OF mem] w1 i
    have c2: "\<forall>j<length (headers_of b (?secs ! i)).
        cells (store s2 (next_id st + i)) (1, j + 1) = Some (headers_of b (?secs ! i) ! j)"
      by auto
    from n1 i have "row_count (store s1 (next_id st + i)) = 1"
      by simp
    with f1 have "1 \<le> row_count (store s2 (next_id st + i))"
      unfolding same_sheets_def by (metis order_refl order_trans)
    with f2 have "cells (store st' (next_id st + i)) (1, k) = cells (store s2 (next_id st + i)) (1, k)" for k
      by (simp add: data_frame_def keeps_row1_def)
    with c2 have "\<forall>j<length (elements (?secs ! i)) + length (EXTRA_FIELDS b).
            cells (store st' (next_id st + i)) (1, j + 1)
              = Some (PStr ((map title (elements (?secs ! i)) @ EXTRA_FIELDS b) ! j))"
      by (simp add: headers_of_nth)
    with w1 i ws show ?thesis by simp
  qed
  from insert_headers_calls [OF h'] obtain H where l2: "log s2 = log s1 @ H"
    and H: "list_all header_call H"
    and u: "\<forall>sec \<in> set ?secs. \<exists>w. worksheets s1 (name sec) = Some w
            \<and> UpdateCells w (row_cells 1 1 (headers_of b sec)) \<in> set H"
    by blast
  have calls: "UpdateCells (next_id st + i)
        (map (\<lambda>j. (1, j + 1, PStr ((map title (elements (?secs ! i)) @ EXTRA_FIELDS b) ! j)))
           [0..<length (elements (?secs ! i)) + length (EXTRA_FIELDS b)]) \<in> set H"
    if i: "i < length ?secs" for i
  proof -
    from i have mem: "?secs ! i \<in> set ?secs"
      by simp
    from u [rule_format, OF mem] w1 i
    have "UpdateCells (next_id st + i) (row_cells 1 1 (headers_of b (?secs ! i))) \<in> set H"
      by auto
    then show ?thesis
      unfolding header_cells_upt .
  qed
  from insert_data_grows [OF d] obtain D where l3: "log st' = log s2 @ D"
    and D: "list_all (section_row_call b (worksheets s2)) D"
    by (auto simp: grows_def)
  from D have D': "\<forall>c \<in> set D. \<exists>ws vs. c = AppendRow ws vs"
    by (auto simp: list_all_iff section_row_call_def)
  have l: "log st' = log st @ add_calls b ?secs (section_titles b ?secs (worksheet_titles st)) @ H @ D"
    by (simp add: l3 l2 l1)
  have second: "\<exists>C H D. log st' = log st @ C @ H @ D
            \<and> list_all is_add C \<and> list_all header_call H
            \<and> (\<forall>c \<in> set D. \<exists>ws vs. c = AppendRow ws vs)
            \<and> (\<forall>i<length ?secs.
                  UpdateCells (next_id st + i)
                    (map (\<lambda>j. (1, j + 1, PStr ((map title (elements (?secs ! i)) @ EXTRA_FIELDS b) ! j)))
                       [0..<length (elements (?secs ! i)) + length (EXTRA_FIELDS b)]) \<in> set H)"
    using l list_all_add_calls [of b ?secs] H D' calls by blast
  from cells second show ?thesis by blast
qed

theorem headers_in_row_one_witness:
  "\<exists>st'. export_tabular demo demo_data (fresh\<lparr>spreadsheet := Some ''key1''\<rparr>) = Inr st'
     \<and> worksheets st' ''survey/kids'' = Some 1
     \<and> cells (store st' 1) (1, 1) = Some (PStr ''age'')
     \<and> cells (store st' 1) (1, 3) = Some (PStr ''_parent_table_name'')"
proof -
  let ?st = "fresh\<lparr>spreadsheet := Some ''key1''\<rparr>"
  define st' where "st' = projr (export_tabular demo demo_data ?st)"
  have sp: "spreadsheet ?st \<noteq> None"
    by simp
  have names: "distinct (map name (sections demo))"
    by (simp add: demo_def)
  have run: "export_tabular demo demo_data ?st = Inr st'"
    unfolding st'_def by (simp add: eval_defs demo_def demo_data_def fresh_def)
  from headers_in_row_one [OF sp names run]
  have t: "\<forall>i<length (sections demo).
            worksheets st' (name (sections demo ! i)) = Some (next_id ?st + i)
            \<and> (\<forall>j<length (elements (sections demo ! i)) + length (EXTRA_FIELDS demo).
                  cells (store st' (next_id ?st + i)) (1, j + 1)
                    = Some (PStr ((map title (elements (sections demo ! i)) @ EXTRA_FIELDS demo) ! j)))"
    by blast
  have i: "(1::nat) < length (sections demo)"
    by (simp add: demo_def)
  from t [rule_format, OF i] have w: "worksheets st' ''survey/kids'' = Some 1"
    and c: "\<forall>j<length (elements (sections demo ! 1)) + length (EXTRA_FIELDS demo).
                  cells (store st' (next_id ?st + 1)) (1, j + 1)
                    = Some (PStr ((map title (elements (sections demo ! 1)) @ EXTRA_FIELDS demo) ! j))"
    by (simp_all add: demo_def fresh_def)
  from c [rule_format, of 0] have c0: "cells (store st' 1) (1, 1) = Some (PStr ''age'')"
    by (simp add: demo_def fresh_def)
  from c [rule_format, of 2] have c2: "cells (store st' 1) (1, 3) = Some (PStr ''_parent_table_name'')"
    by (simp add: demo_def fresh_def numeral_3_eq_3)
  from run w c0 c2 show ?thesis by blast
qed

end
